(* ===== verification/Prelude.thy ===== *)
theory Prelude
  imports Main "HOL-Library.Word"
begin

text \<open>
  What every component shares: the machine types of the Go code (bytes, 64-bit signed
  integers with their wrap-around, fixed arrays), Go's slice expressions with their run-time
  panics as \<open>None\<close>, the ``for k, v := range m'' loop over a map with its unspecified order, and
  two contracts used by several components: a byte codec that is read back from a stream, and a
  machine whose steps keep an invariant.
\<close>

section \<open>Collections of lemmas\<close>

named_theorems go_simps \<open>evaluation rules of the modelled Go library functions\<close>
named_theorems frames \<open>which fields of the state an operation leaves alone\<close>

section \<open>Bytes, arrays and 64-bit integers\<close>

type_synonym byte = "8 word"

definition byte_of :: "char \<Rightarrow> byte" where
  "byte_of c = of_nat (of_char c)"

definition char_of_byte :: "byte \<Rightarrow> char" where
  "char_of_byte b = char_of (unat b)"

lemma unat_byte_less [simp]: "unat (b :: byte) < 256"
  using unsigned_less [where ?'a = nat, of b] by simp

lemma char_of_byte_byte_of [simp]: "char_of_byte (byte_of c) = c"
  by (simp add: char_of_byte_def byte_of_def take_bit_eq_mod unat_of_nat)

lemma byte_of_char_of_byte [simp]: "byte_of (char_of_byte b) = b"
  by (simp add: byte_of_def char_of_byte_def)

text \<open>\<open>wrap64 x\<close> is the value an \<open>int64\<close> variable holds after an operation whose exact result
  is \<open>x\<close> (Go wraps silently).\<close>

definition wrap64 :: "int \<Rightarrow> int" where
  "wrap64 x = (x + 2 ^ 63) mod 2 ^ 64 - 2 ^ 63"

definition is_i64 :: "int \<Rightarrow> bool" where
  "is_i64 x \<longleftrightarrow> - (2 ^ 63) \<le> x \<and> x < 2 ^ 63"

lemma wrap64_id: "is_i64 x \<Longrightarrow> wrap64 x = x"
  by (simp add: wrap64_def is_i64_def)

lemma wrap64_is_i64 [simp]: "is_i64 (wrap64 x)"
proof -
  have "0 \<le> (x + 2 ^ 63) mod 2 ^ 64" and "(x + 2 ^ 63) mod 2 ^ 64 < 2 ^ 64"
    by simp_all
  then show ?thesis by (simp add: wrap64_def is_i64_def)
qed

lemma wrap64_idem [simp]: "wrap64 (wrap64 x) = wrap64 x"
  by (simp add: wrap64_id)

lemma wrap64_eq_iff: "wrap64 x = wrap64 y \<longleftrightarrow> x mod 2 ^ 64 = y mod 2 ^ 64"
proof -
  have "wrap64 x = wrap64 y \<longleftrightarrow> (x + 2 ^ 63) mod 2 ^ 64 = (y + 2 ^ 63) mod 2 ^ 64"
    by (simp add: wrap64_def)
  also have "\<dots> \<longleftrightarrow> x mod 2 ^ 64 = y mod 2 ^ 64"
    by (simp add: mod_eq_dvd_iff)
  finally show ?thesis .
qed

lemma wrap64_mod: "wrap64 x mod 2 ^ 64 = x mod 2 ^ 64"
  using wrap64_eq_iff wrap64_idem by blast

lemma wrap64_add_left [simp]: "wrap64 (wrap64 x + y) = wrap64 (x + y)"
  unfolding wrap64_eq_iff by (metis mod_add_cong wrap64_mod)

lemma wrap64_add_right [simp]: "wrap64 (x + wrap64 y) = wrap64 (x + y)"
  unfolding wrap64_eq_iff by (metis mod_add_cong wrap64_mod)

lemma wrap64_diff_left [simp]: "wrap64 (wrap64 x - y) = wrap64 (x - y)"
  unfolding wrap64_eq_iff by (metis mod_diff_cong wrap64_mod)

lemma wrap64_mult_left [simp]: "wrap64 (wrap64 x * y) = wrap64 (x * y)"
proof -
  have "(wrap64 x * y) mod 2 ^ 64 = (wrap64 x mod 2 ^ 64 * y) mod 2 ^ 64" by (simp add: mod_mult_left_eq)
  also have "\<dots> = (x * y) mod 2 ^ 64" by (simp only: wrap64_mod mod_mult_left_eq)
  finally show ?thesis by (simp add: wrap64_eq_iff)
qed

text \<open>\<open>var a [n]byte; copy(a[:], xs)\<close>: a zeroed array of \<open>n\<close> elements overwritten from the
  front; what does not fit is dropped.\<close>

definition copy_arr :: "nat \<Rightarrow> 'a::zero list \<Rightarrow> 'a list" where
  "copy_arr n xs = take n xs @ replicate (n - length xs) 0"

lemma length_copy_arr [simp]: "length (copy_arr n xs) = n"
  by (simp add: copy_arr_def)

lemma copy_arr_exact: "length xs = n \<Longrightarrow> copy_arr n xs = xs"
  by (simp add: copy_arr_def)

text \<open>Slice expressions \<open>xs[lo:hi]\<close> and index expressions \<open>xs[i]\<close> of Go panic out of range; the
  model returns \<open>None\<close> there.\<close>

definition go_slice :: "nat \<Rightarrow> nat \<Rightarrow> 'a list \<Rightarrow> 'a list option" where
  "go_slice lo hi xs = (if lo \<le> hi \<and> hi \<le> length xs then Some (take (hi - lo) (drop lo xs)) else None)"

definition go_index :: "'a list \<Rightarrow> nat \<Rightarrow> 'a option" where
  "go_index xs i = (if i < length xs then Some (xs ! i) else None)"

lemma go_slice_Some_iff: "(\<exists>ys. go_slice lo hi xs = Some ys) \<longleftrightarrow> lo \<le> hi \<and> hi \<le> length xs"
  by (simp add: go_slice_def)

lemma go_slice_append [simp]:
  "lo = length xs \<Longrightarrow> hi = length xs + length ys \<Longrightarrow> go_slice lo hi (xs @ ys @ zs) = Some ys"
  by (simp add: go_slice_def)

lemma go_index_append [simp]: "i = length xs \<Longrightarrow> go_index (xs @ y # zs) i = Some y"
  by (simp add: go_index_def nth_append)

section \<open>Iteration over a map\<close>

text \<open>Go visits the entries of a map in an unspecified order. A loop over a map takes the order
  as an argument, a list that enumerates the map's keys; a theorem that holds for every
  enumeration holds for whatever the runtime picks.\<close>

definition enumerates :: "'k list \<Rightarrow> ('k \<rightharpoonup> 'v) \<Rightarrow> bool" where
  "enumerates ks m \<longleftrightarrow> distinct ks \<and> set ks = dom m"

lemma enumerates_distinct: "enumerates ks m \<Longrightarrow> distinct ks"
  by (simp add: enumerates_def)

lemma enumerates_set: "enumerates ks m \<Longrightarrow> set ks = dom m"
  by (simp add: enumerates_def)

lemma enumerates_mem: "enumerates ks m \<Longrightarrow> k \<in> set ks \<longleftrightarrow> m k \<noteq> None"
  by (auto simp: enumerates_def)

lemma enumerates_finite: "enumerates ks m \<Longrightarrow> finite (dom m)"
  by (metis enumerates_def List.finite_set)

text \<open>A loop that only touches the entry it visits has a closed form, whatever the order.\<close>

lemma fold_fun_upd:
  assumes "distinct ks"
  shows "fold (\<lambda>k m. m(k := f k (m k))) ks m = (\<lambda>k. if k \<in> set ks then f k (m k) else m k)"
  using assms
proof (induction ks arbitrary: m)
  case Nil
  then show ?case by simp
next
  case (Cons a ks)
  then show ?case by (auto simp: fun_eq_iff)
qed

text \<open>A loop body that leaves a field alone leaves it alone over the whole loop.\<close>

lemma fold_keeps: "(\<And>x s. P (f x s) = P s) \<Longrightarrow> P (fold f xs s) = P s"
  by (induction xs arbitrary: s) auto

lemma fold_inv: "P s \<Longrightarrow> (\<And>x s. x \<in> set xs \<Longrightarrow> P s \<Longrightarrow> P (f x s)) \<Longrightarrow> P (fold f xs s)"
  by (induction xs arbitrary: s) auto

section \<open>Shared contracts\<close>

text \<open>Runs of a step function that is \<open>None\<close> where a step is not enabled: the events in the order they
  happened.\<close>

inductive runs :: "('e \<Rightarrow> 's \<Rightarrow> 's option) \<Rightarrow> 's \<Rightarrow> 'e list \<Rightarrow> 's \<Rightarrow> bool"
  for step where
  nil: "runs step s [] s"
| snoc: "runs step s es s' \<Longrightarrow> step e s' = Some s'' \<Longrightarrow> runs step s (es @ [e]) s''"

lemma runs_one: "step e s = Some s' \<Longrightarrow> runs step s [e] s'"
  using runs.snoc [OF runs.nil, of step e s s'] by simp

lemma runs_exec: "fold (\<lambda>e x. Option.bind x (step e)) es (Some s) = Some s' \<Longrightarrow> runs step s es s'"
proof (induction es arbitrary: s' rule: rev_induct)
  case (snoc e es)
  then obtain t where "fold (\<lambda>e x. Option.bind x (step e)) es (Some s) = Some t" "step e t = Some s'"
    by (auto simp: bind_eq_Some_conv)
  with snoc.IH show ?case by (blast intro: runs.snoc)
qed (simp add: runs.nil)

text \<open>A machine: steps that keep an invariant. The steps are the lock-protected methods of a component or the
  rounds of its loops, so a run is one interleaving of the goroutines.\<close>

locale machine =
  fixes step :: "'e \<Rightarrow> 's \<Rightarrow> 's option"
    and inv :: "'s \<Rightarrow> bool"
    and ok :: "'e \<Rightarrow> bool"
  assumes step_inv: "step e s = Some s' \<Longrightarrow> ok e \<Longrightarrow> inv s \<Longrightarrow> inv s'"
begin

lemma run_inv: "runs step s es s' \<Longrightarrow> list_all ok es \<Longrightarrow> inv s \<Longrightarrow> inv s'"
  by (induction rule: runs.induct) (auto intro: step_inv)

end

text \<open>A codec: what \<open>put\<close> writes, \<open>get\<close> reads back and leaves the rest of the input.\<close>

locale codec =
  fixes put :: "'a \<Rightarrow> 'b list"
    and get :: "'b list \<Rightarrow> ('a \<times> 'b list) option"
    and ok :: "'a \<Rightarrow> bool"
  assumes get_put: "ok x \<Longrightarrow> get (put x @ rest) = Some (x, rest)"
begin

lemma get_put_end: "ok x \<Longrightarrow> get (put x) = Some (x, [])"
  using get_put [of x "[]"] by simp

lemma put_inj: "ok x \<Longrightarrow> ok y \<Longrightarrow> put x @ r = put y @ r' \<Longrightarrow> x = y \<and> r = r'"
  by (metis get_put option.inject prod.inject)

end

text \<open>A stream of such values, read by a loop until the input does not hold a whole value.\<close>

fun read_all :: "('b list \<Rightarrow> ('a \<times> 'b list) option) \<Rightarrow> nat \<Rightarrow> 'b list \<Rightarrow> 'a list \<times> 'b list" where
  "read_all get 0 bs = ([], bs)"
| "read_all get (Suc fuel) bs =
     (case get bs of
        None \<Rightarrow> ([], bs)
      | Some (x, rest) \<Rightarrow> (let (xs, r) = read_all get fuel rest in (x # xs, r)))"

locale stream_codec = codec +
  assumes put_nonempty: "put x \<noteq> []"
begin

text \<open>As many rounds as there are bytes are enough: every value takes at least one.\<close>

lemma read_all_put:
  assumes "list_all ok xs" and "get tail = None" and "length xs < fuel"
  shows "read_all get fuel (concat (map put xs) @ tail) = (xs, tail)"
  using assms
proof (induction xs arbitrary: fuel)
  case Nil
  then show ?case by (cases fuel) auto
next
  case (Cons x xs)
  then obtain f where "fuel = Suc f" by (cases fuel) auto
  with Cons show ?case by (simp add: get_put)
qed

text \<open>Two readings of one stream agree: a stream that begins with some values begins with a prefix of the whole.\<close>

lemma stream_prefix:
  assumes "list_all ok xs" "list_all ok ys" "get tail = None" "concat (map put xs) @ tail = concat (map put ys) @ rest"
  shows "\<exists>zs. xs = ys @ zs \<and> concat (map put zs) @ tail = rest"
  using assms
proof (induction ys arbitrary: xs)
  case (Cons y ys)
  from Cons.prems(4) have first: "get (concat (map put xs) @ tail) = Some (y, concat (map put ys) @ rest)"
    using Cons.prems(2) by (simp add: get_put)
  show ?case
  proof (cases xs)
    case Nil
    with first Cons.prems(3) show ?thesis by simp
  next
    case (Cons x xs')
    with first Cons.prems(1) have "x = y" "concat (map put xs') @ tail = concat (map put ys) @ rest" by (simp_all add: get_put)
    with Cons.IH [of xs'] Cons Cons.prems(1,2,3) show ?thesis by auto
  qed
qed simp

lemma no_value_empty: "list_all ok (xs @ ys) \<Longrightarrow> get (concat (map put ys) @ tail) = None \<Longrightarrow> ys = []"
  by (cases ys) (auto simp: get_put)

lemma length_stream: "length xs \<le> length (concat (map put xs))"
proof (induction xs)
  case (Cons x xs)
  then show ?case using put_nonempty [of x] by (cases "put x") auto
qed simp

end

end
