(* ===== verification/Go_Std.thy ===== *)
theory Go_Std
  imports Prelude "HOL-Library.Char_ord"
begin

text \<open>
  The parts of Go's standard library the server calls: \<open>encoding/hex\<close>, \<open>encoding/base64\<close>
  (\<open>RawURLEncoding\<close>), \<open>strings\<close> (\<open>Split\<close>, \<open>ReplaceAll\<close> of one byte, \<open>ToLower\<close>, \<open>TrimSpace\<close>,
  \<open>TrimRight\<close> of one byte, \<open>Join\<close>), \<open>strconv.Itoa\<close>, \<open>strconv.Atoi\<close>, \<open>net.JoinHostPort\<close>,
  \<open>net.IP.String\<close> and \<open>io.ReadAtLeast\<close>. A Go string is a sequence of bytes, here a list of
  HOL's 8-bit characters. \<open>ToLower\<close> and \<open>TrimSpace\<close> are modelled on ASCII; a byte of a
  non-ASCII character is left as it is.
\<close>

section \<open>Strings\<close>

fun splitOn :: "char \<Rightarrow> string \<Rightarrow> string list" where
  "splitOn sep [] = [[]]"
| "splitOn sep (c # cs) =
     (if c = sep then [] # splitOn sep cs
      else (case splitOn sep cs of [] \<Rightarrow> [[c]] | p # ps \<Rightarrow> (c # p) # ps))"

lemma splitOn_nonempty [simp]: "splitOn sep s \<noteq> []"
  by (cases s) (auto split: list.splits)

lemma splitOn_no_sep: "sep \<notin> set s \<Longrightarrow> splitOn sep s = [s]"
  by (induction s) auto

lemma splitOn_append: "sep \<notin> set s \<Longrightarrow> splitOn sep (s @ sep # t) = s # splitOn sep t"
  by (induction s) auto

fun join :: "string \<Rightarrow> string list \<Rightarrow> string" where
  "join sep [] = []"
| "join sep [p] = p"
| "join sep (p # q # ps) = p @ sep @ join sep (q # ps)"

lemma splitOn_join:
  assumes "ps \<noteq> []" and "\<forall>p \<in> set ps. sep \<notin> set p"
  shows "splitOn sep (join [sep] ps) = ps"
  using assms by (induction "[sep]" ps rule: join.induct) (auto simp: splitOn_append splitOn_no_sep)

definition removeAllChar :: "char \<Rightarrow> string \<Rightarrow> string" where
  "removeAllChar c = filter (\<lambda>x. x \<noteq> c)"

definition lowerChar :: "char \<Rightarrow> char" where
  "lowerChar c = (let n = of_char c :: nat in if 65 \<le> n \<and> n \<le> 90 then char_of (n + 32) else c)"

definition upperChar :: "char \<Rightarrow> char" where
  "upperChar c = (let n = of_char c :: nat in if 97 \<le> n \<and> n \<le> 122 then char_of (n - 32) else c)"

definition toLower :: "string \<Rightarrow> string" where
  "toLower = map lowerChar"

definition isSpace :: "char \<Rightarrow> bool" where
  "isSpace c = (let n = of_char c :: nat in n = 32 \<or> (9 \<le> n \<and> n \<le> 13))"

definition trimSpace :: "string \<Rightarrow> string" where
  "trimSpace s = rev (dropWhile isSpace (rev (dropWhile isSpace s)))"

definition trimRight :: "char \<Rightarrow> string \<Rightarrow> string" where
  "trimRight c s = rev (dropWhile (\<lambda>x. x = c) (rev s))"

section \<open>Hexadecimal\<close>

definition hexDigit :: "char \<Rightarrow> nat option" where
  "hexDigit c = (let n = of_char c in
     if 48 \<le> n \<and> n \<le> 57 then Some (n - 48)
     else if 97 \<le> n \<and> n \<le> 102 then Some (n - 87)
     else if 65 \<le> n \<and> n \<le> 70 then Some (n - 55)
     else None)"

definition hexChar :: "nat \<Rightarrow> char" where
  "hexChar n = (if n < 10 then char_of (48 + n) else char_of (87 + n))"

fun hexDecode :: "string \<Rightarrow> byte list option" where
  "hexDecode [] = Some []"
| "hexDecode [c] = None"
| "hexDecode (c # d # s) =
     (case (hexDigit c, hexDigit d, hexDecode s) of
        (Some h, Some l, Some bs) \<Rightarrow> Some (of_nat (16 * h + l) # bs)
      | _ \<Rightarrow> None)"

definition hexEncode :: "byte list \<Rightarrow> string" where
  "hexEncode bs = concat (map (\<lambda>b. [hexChar (unat b div 16), hexChar (unat b mod 16)]) bs)"

lemma hexDigit_hexChar [simp]: "n < 16 \<Longrightarrow> hexDigit (hexChar n) = Some n"
  by (simp add: hexDigit_def hexChar_def)

lemma hexDigit_less: "hexDigit c = Some n \<Longrightarrow> n < 16"
  by (auto simp: hexDigit_def Let_def split: if_splits)

lemma byte_nibbles: "of_nat (16 * (unat b div 16) + unat b mod 16) = (b :: byte)"
  by simp

lemma unat_div16_less [simp]: "unat (b :: byte) div 16 < 16"
proof -
  have "unat b < 16 * 16" using unat_byte_less [of b] by linarith
  then show ?thesis by (rule less_mult_imp_div_less)
qed

lemma hexDecode_hexEncode [simp]: "hexDecode (hexEncode bs) = Some bs"
  by (induction bs) (auto simp: hexEncode_def byte_nibbles simp del: of_nat_add of_nat_mult)

lemma hexDecode_length: "hexDecode s = Some bs \<Longrightarrow> length s = 2 * length bs"
  by (induction s arbitrary: bs rule: hexDecode.induct) (auto split: option.splits)

lemma length_hexEncode [simp]: "length (hexEncode bs) = 2 * length bs"
  by (induction bs) (auto simp: hexEncode_def)

lemma of_char_lowerChar:
  "of_char (lowerChar c) = (if 65 \<le> (of_char c :: nat) \<and> (of_char c :: nat) \<le> 90 then of_char c + 32 else of_char c :: nat)"
  by (simp add: lowerChar_def Let_def)

lemma hexDigit_lowerChar: "hexDigit c = Some n \<Longrightarrow> hexDigit (lowerChar c) = Some n"
  unfolding hexDigit_def Let_def of_char_lowerChar by (auto split: if_splits)

lemma hexDecode_toLower: "hexDecode s = Some bs \<Longrightarrow> hexDecode (toLower s) = Some bs"
  by (induction s arbitrary: bs rule: hexDecode.induct)
    (auto simp: toLower_def hexDigit_lowerChar split: option.splits)

lemma hexDigit_dash [simp]: "hexDigit (CHR ''-'') = None"
  by (simp add: hexDigit_def)

lemma hexChar_not_dash: "n < 16 \<Longrightarrow> hexChar n \<noteq> CHR ''-''"
  using hexDigit_hexChar [of n] by (cases "hexChar n = CHR ''-''") auto

lemma dash_hexEncode: "CHR ''-'' \<notin> set (hexEncode bs)"
  by (induction bs) (auto simp: hexEncode_def hexChar_not_dash [THEN not_sym])

section \<open>Base64, the raw URL alphabet\<close>

definition b64Digit :: "char \<Rightarrow> nat option" where
  "b64Digit c = (let n = of_char c in
     if 65 \<le> n \<and> n \<le> 90 then Some (n - 65)
     else if 97 \<le> n \<and> n \<le> 122 then Some (n - 71)
     else if 48 \<le> n \<and> n \<le> 57 then Some (n + 4)
     else if c = CHR ''-'' then Some 62
     else if c = CHR ''_'' then Some 63
     else None)"

fun mapOpt :: "('a \<Rightarrow> 'b option) \<Rightarrow> 'a list \<Rightarrow> 'b list option" where
  "mapOpt f [] = Some []"
| "mapOpt f (x # xs) =
     (case f x of None \<Rightarrow> None | Some y \<Rightarrow> map_option (\<lambda>ys. y # ys) (mapOpt f xs))"

lemma mapOpt_length: "mapOpt f xs = Some ys \<Longrightarrow> length ys = length xs"
  by (induction xs arbitrary: ys) (auto split: option.splits)

lemma mapOpt_map: "\<forall>x \<in> set xs. f (g x) = Some x \<Longrightarrow> mapOpt f (map g xs) = Some xs"
  by (induction xs) auto

text \<open>Six-bit digits to bytes; the decoder is not strict, so the spare bits of the last digit are
  not looked at. One digit alone is an error.\<close>

fun b64Bytes :: "nat list \<Rightarrow> byte list option" where
  "b64Bytes [] = Some []"
| "b64Bytes [a] = None"
| "b64Bytes [a, b] = Some [of_nat (4 * a + b div 16)]"
| "b64Bytes [a, b, c] = Some [of_nat (4 * a + b div 16), of_nat (16 * (b mod 16) + c div 4)]"
| "b64Bytes (a # b # c # d # ds) =
     map_option (\<lambda>bs. of_nat (4 * a + b div 16) # of_nat (16 * (b mod 16) + c div 4)
                      # of_nat (64 * (c mod 4) + d) # bs) (b64Bytes ds)"

text \<open>The decoder skips carriage returns and line feeds.\<close>

definition b64Decode :: "string \<Rightarrow> byte list option" where
  "b64Decode s =
     (case mapOpt b64Digit (filter (\<lambda>c. of_char c \<noteq> (10 :: nat) \<and> of_char c \<noteq> (13 :: nat)) s) of
        None \<Rightarrow> None
      | Some ds \<Rightarrow> b64Bytes ds)"

lemma b64Bytes_length: "b64Bytes ds = Some bs \<Longrightarrow> length bs = 3 * length ds div 4"
  by (induction ds arbitrary: bs rule: b64Bytes.induct) auto

lemma b64Bytes_defined: "b64Bytes ds = None \<longleftrightarrow> length ds mod 4 = 1"
  by (induction ds rule: b64Bytes.induct) (auto simp: mod_Suc)

section \<open>Decimal numbers\<close>

fun natDigits :: "nat \<Rightarrow> string" where
  "natDigits n = (if n < 10 then [char_of (48 + n)] else natDigits (n div 10) @ [char_of (48 + n mod 10)])"

declare natDigits.simps [simp del]

definition itoa :: "int \<Rightarrow> string" where
  "itoa i = (if i < 0 then CHR ''-'' # natDigits (nat (- i)) else natDigits (nat i))"

definition decDigit :: "char \<Rightarrow> nat option" where
  "decDigit c = (let n = of_char c in if 48 \<le> n \<and> n \<le> 57 then Some (n - 48) else None)"

text \<open>\<open>strconv.Atoi\<close> on a 64-bit machine: an optional sign, at least one digit, digits only, and
  the value in range.\<close>

definition decValue :: "nat list \<Rightarrow> nat" where
  "decValue ds = foldl (\<lambda>n d. n * 10 + d) 0 ds"

definition atoi :: "string \<Rightarrow> int option" where
  "atoi s =
     (let (neg, ds) = (case s of
          [] \<Rightarrow> (False, [])
        | c # cs \<Rightarrow> (if c = CHR ''-'' then (True, cs) else if c = CHR ''+'' then (False, cs) else (False, s)))
      in case mapOpt decDigit ds of
           None \<Rightarrow> None
         | Some xs \<Rightarrow>
             (let v = (if neg then - int (decValue xs) else int (decValue xs))
              in if xs = [] \<or> \<not> is_i64 v then None else Some v))"

lemma decDigit_char [simp]: "d < 10 \<Longrightarrow> decDigit (char_of (48 + d)) = Some d"
  by (simp add: decDigit_def)

lemma decValue_snoc [simp]: "decValue (ds @ [d]) = decValue ds * 10 + d"
  by (simp add: decValue_def)

lemma mapOpt_append:
  "mapOpt f (xs @ ys) = (case (mapOpt f xs, mapOpt f ys) of
     (Some a, Some b) \<Rightarrow> Some (a @ b) | _ \<Rightarrow> None)"
  by (induction xs) (auto split: option.splits)

lemma natDigits_value: "\<exists>ds. mapOpt decDigit (natDigits n) = Some ds \<and> ds \<noteq> [] \<and> decValue ds = n"
proof (induction n rule: natDigits.induct)
  case (1 n)
  show ?case
  proof (cases "n < 10")
    case True
    then show ?thesis by (simp add: natDigits.simps [of n] decValue_def)
  next
    case False
    with 1 obtain ds where "mapOpt decDigit (natDigits (n div 10)) = Some ds" and "decValue ds = n div 10"
      by auto
    with False show ?thesis by (simp add: natDigits.simps [of n] mapOpt_append)
  qed
qed

lemma natDigits_head: "\<exists>c cs. natDigits n = c # cs \<and> (\<exists>d. decDigit c = Some d)"
proof -
  obtain ds where ds: "mapOpt decDigit (natDigits n) = Some ds" "ds \<noteq> []"
    using natDigits_value by blast
  then show ?thesis by (cases "natDigits n") (auto split: option.splits)
qed

lemma atoi_itoa: "is_i64 i \<Longrightarrow> atoi (itoa i) = Some i"
proof -
  assume i: "is_i64 i"
  obtain c cs where hd: "natDigits (nat i) = c # cs" "c \<noteq> CHR ''-''" "c \<noteq> CHR ''+''"
    using natDigits_head [of "nat i"] by (fastforce simp: decDigit_def Let_def split: if_splits)
  obtain ds where ds: "mapOpt decDigit (natDigits (nat i)) = Some ds" "ds \<noteq> []" "decValue ds = nat i"
    using natDigits_value by blast
  obtain es where es: "mapOpt decDigit (natDigits (nat (- i))) = Some es" "es \<noteq> []"
      "decValue es = nat (- i)"
    using natDigits_value by blast
  show ?thesis
  proof (cases "i < 0")
    case True
    with es i show ?thesis by (simp add: atoi_def itoa_def)
  next
    case False
    from hd have "(case natDigits (nat i) of [] \<Rightarrow> (False, [])
        | c # cs \<Rightarrow> (if c = CHR ''-'' then (True, cs) else if c = CHR ''+'' then (False, cs)
            else (False, natDigits (nat i)))) = (False, natDigits (nat i))"
      by simp
    with False ds i show ?thesis by (simp add: atoi_def itoa_def)
  qed
qed

section \<open>IP addresses\<close>

definition ipv4String :: "byte list \<Rightarrow> string" where
  "ipv4String bs = join ''.'' (map (\<lambda>b. natDigits (unat b)) bs)"

fun hexNat :: "nat \<Rightarrow> string" where
  "hexNat n = (if n < 16 then [hexChar n] else hexNat (n div 16) @ [hexChar (n mod 16)])"

declare hexNat.simps [simp del]

fun groups16 :: "byte list \<Rightarrow> nat list" where
  "groups16 (a # b # bs) = (256 * unat a + unat b) # groups16 bs"
| "groups16 _ = []"

text \<open>The first longest run of at least two zero groups, as (start, length); length 0 when there is
  none.\<close>

fun bestRun :: "nat \<Rightarrow> nat list \<Rightarrow> nat \<times> nat \<Rightarrow> nat \<times> nat" where
  "bestRun i [] b = b"
| "bestRun i (g # gs) b =
     (let r = length (takeWhile (\<lambda>x. x = 0) (g # gs))
      in bestRun (Suc i) gs (if 2 \<le> r \<and> snd b < r then (i, r) else b))"

definition ipv6String :: "byte list \<Rightarrow> string" where
  "ipv6String bs =
     (let gs = groups16 bs; (st, len) = bestRun 0 gs (0, 0)
      in if len = 0 then join '':'' (map hexNat gs)
         else join '':'' (map hexNat (take st gs)) @ ''::'' @ join '':'' (map hexNat (drop (st + len) gs)))"

text \<open>\<open>net.IP.String\<close>: four bytes, and sixteen bytes that are an IPv4-mapped address, print in
  dotted form.\<close>

definition ipString :: "byte list \<Rightarrow> string" where
  "ipString bs =
     (if bs = [] then ''<nil>''
      else if length bs = 4 then ipv4String bs
      else if length bs = 16 then
        (if take 12 bs = replicate 10 0 @ [255, 255] then ipv4String (drop 12 bs) else ipv6String bs)
      else ''?'' @ hexEncode bs)"

definition joinHostPort :: "string \<Rightarrow> string \<Rightarrow> string" where
  "joinHostPort host port =
     (if CHR '':'' \<in> set host then ''['' @ host @ '']:'' @ port else host @ '':'' @ port)"

section \<open>Reading from a connection\<close>

text \<open>What the peer will send: the data one \<open>Read\<close> call finds available and whether that call
  also returns an error; after the last entry every \<open>Read\<close> returns \<open>EOF\<close>. A \<open>Read\<close> into fewer bytes
  than are available leaves the rest for the next one.\<close>

type_synonym netin = "(byte list \<times> bool) list"

definition inBytes :: "netin \<Rightarrow> byte list" where
  "inBytes evs = concat (map fst evs)"

text \<open>\<open>io.ReadAtLeast(r, buf, need)\<close> with \<open>len(buf) = cap\<close>. \<open>onRead n\<close> is what the reader does to
  the program's state when a \<open>Read\<close> returned \<open>n > 0\<close> bytes (a plain connection does nothing, the
  counting connection accounts them), \<open>alive\<close> whether the connection is still open on our side.
  The result is the bytes read, whether the call returned a nil error, the input left and the
  state.\<close>

fun readLoop :: "(nat \<Rightarrow> 'w \<Rightarrow> 'w) \<Rightarrow> ('w \<Rightarrow> bool) \<Rightarrow> nat \<Rightarrow> nat \<Rightarrow> netin \<Rightarrow> byte list \<Rightarrow> 'w
    \<Rightarrow> (byte list \<times> bool) \<times> netin \<times> 'w" where
  "readLoop onRead alive cap need [] acc w = ((acc, need \<le> length acc), [], w)"
| "readLoop onRead alive cap need ((d, e) # evs) acc w =
     (if need \<le> length acc then ((acc, True), (d, e) # evs, w)
      else if \<not> alive w then ((acc, False), (d, e) # evs, w)
      else (let k = cap - length acc in
        if length d \<le> k then
          (let w' = (if d = [] then w else onRead (length d) w) in
           if e then ((acc @ d, need \<le> length (acc @ d)), evs, w')
           else readLoop onRead alive cap need evs (acc @ d) w')
        else ((acc @ take k d, True), (drop k d, e) # evs, onRead k w)))"

definition readAtLeast :: "(nat \<Rightarrow> 'w \<Rightarrow> 'w) \<Rightarrow> ('w \<Rightarrow> bool) \<Rightarrow> nat \<Rightarrow> nat \<Rightarrow> netin \<Rightarrow> 'w
    \<Rightarrow> (byte list \<times> bool) \<times> netin \<times> 'w" where
  "readAtLeast onRead alive cap need evs w =
     (if cap < need then (([], False), evs, w) else readLoop onRead alive cap need evs [] w)"

lemma readLoop_bytes:
  "readLoop onRead alive cap need evs acc w = ((bs, ok), evs', w') \<Longrightarrow>
   \<exists>ds. bs = acc @ ds \<and> ds @ inBytes evs' = inBytes evs"
proof (induction onRead alive cap need evs acc w rule: readLoop.induct)
  case (1 onRead alive cap need acc w)
  then show ?case by (simp add: inBytes_def)
next
  case (2 onRead alive cap need d e evs acc w)
  then show ?case
    by (auto simp: Let_def inBytes_def split: if_splits) (metis append_assoc append_take_drop_id)+
qed

lemma readLoop_ok:
  "readLoop onRead alive cap need evs acc w = ((bs, ok), evs', w') \<Longrightarrow> need \<le> cap \<Longrightarrow> length acc \<le> cap \<Longrightarrow>
   length bs \<le> cap \<and> (ok \<longleftrightarrow> need \<le> length bs)"
proof (induction onRead alive cap need evs acc w rule: readLoop.induct)
  case (1 onRead alive cap need acc w)
  then show ?case by auto
next
  case (2 onRead alive cap need d e evs acc w)
  then show ?case by (auto simp: Let_def split: if_splits)
qed

text \<open>The state sees exactly the bytes that were read, in positive chunks.\<close>

lemma readLoop_accounts:
  "readLoop onRead alive cap need evs acc w = ((bs, ok), evs', w') \<Longrightarrow> need \<le> cap \<Longrightarrow> length acc \<le> cap \<Longrightarrow>
   \<exists>ns. w' = fold onRead ns w \<and> sum_list ns = length bs - length acc \<and> (\<forall>n \<in> set ns. 0 < n) \<and>
        length acc \<le> length bs"
proof (induction onRead alive cap need evs acc w rule: readLoop.induct)
  case (1 onRead alive cap need acc w)
  then show ?case by (auto intro: exI [of _ "[]"])
next
  case (2 onRead alive cap need d e evs acc w)
  consider (enough) "need \<le> length acc \<or> \<not> alive w"
    | (more) "\<not> need \<le> length acc" "alive w" "length d \<le> cap - length acc" "\<not> e"
    | (err) "\<not> need \<le> length acc" "alive w" "length d \<le> cap - length acc" "e"
    | (full) "\<not> need \<le> length acc" "alive w" "\<not> length d \<le> cap - length acc"
    by blast
  then show ?case
  proof cases
    case enough
    with 2 show ?thesis by (auto intro!: exI [of _ "[]"] split: if_splits)
  next
    case more
    let ?w = "if d = [] then w else onRead (length d) w"
    from more 2(2) have "readLoop onRead alive cap need evs (acc @ d) ?w = ((bs, ok), evs', w')"
      by (simp add: Let_def)
    moreover from more 2(4) have "length (acc @ d) \<le> cap" by simp
    ultimately obtain ns where ns: "w' = fold onRead ns ?w"
        "sum_list ns = length bs - length (acc @ d)" "\<forall>n \<in> set ns. 0 < n" "length (acc @ d) \<le> length bs"
      using 2(1) [OF _ _ refl more(3) refl more(4)] more 2(3) by auto
    then show ?thesis
    proof (cases "d = []")
      case True
      with ns show ?thesis by (intro exI [of _ ns]) auto
    next
      case False
      with ns show ?thesis by (intro exI [of _ "length d # ns"]) auto
    qed
  next
    case err
    with 2(2) show ?thesis
      by (intro exI [of _ "if d = [] then [] else [length d]"]) (auto simp: Let_def)
  next
    case full
    with 2(2) 2(3,4) show ?thesis
      by (auto simp: Let_def intro!: exI [of _ "[cap - length acc]"])
  qed
qed

lemmas readAtLeast_facts = readLoop_bytes readLoop_ok readLoop_accounts

end
