(* ===== verification/Model_Types.thy ===== *)
theory Model_Types
  imports Go_Std "HOL-Library.Finite_Map"
begin

text \<open>
  The types of package \<open>model\<close> (\<open>config.go\<close>, \<open>stream.go\<close>, \<open>user.go\<close>): what the manager delivers
  and what the node reports. A Go \<open>int64\<close>, \<open>int\<close> or \<open>uint32\<close> field is an \<open>int\<close>; the operations
  write out the 64-bit wrap-around where they compute with it. \<open>map[string]any\<close> is a finite map
  of JSON values, with \<open>None\<close> for the nil map; a nil pointer is \<open>None\<close>. \<open>time.Time\<close> is a number
  (no code of the repository reads it).
\<close>

section \<open>JSON values\<close>

text \<open>A decoded JSON value. A number decodes to \<open>float64\<close>; only integral values reach the code
  modelled here (ports, versions, durations), so \<open>JFloat\<close> holds the value of the \<open>float64\<close> as an integer;
  the rounding is written out where the number is made (\<open>Stream_Settings\<close>). \<open>JInt\<close> is a Go \<open>int\<close> that was put in a
  map by code rather than by the decoder.\<close>

datatype jval =
    JNull
  | JBool bool
  | JFloat int
  | JInt int
  | JStr string
  | JArr "jval list"
  | JObj "(string, jval) fmap"

type_synonym settings = "(string, jval) fmap option"

section \<open>user.go\<close>

record user =
  u_ID :: string
  u_Email :: string
  u_Level :: int
  u_ExpireAt :: int
  u_SpeedLimitUpBps :: int
  u_SpeedLimitDownBps :: int

record user_traffic =
  t_Email :: string
  t_NodeID :: string
  t_Up :: int
  t_Down :: int

record user_usage =
  g_Email :: string
  g_QuotaBytes :: int
  g_UsedBytes :: int

section \<open>stream.go\<close>

record tls_config =
  tls_ServerName :: string
  tls_CertFile :: string
  tls_KeyFile :: string
  tls_CertPEM :: string
  tls_KeyPEM :: string
  tls_ALPN :: "string list"
  tls_MinVersion :: string
  tls_MaxVersion :: string
  tls_RejectUnknownSNI :: bool

record reality_config =
  rl_Show :: bool
  rl_Target :: string
  rl_Xver :: int
  rl_ServerName :: string
  rl_PrivateKey :: string
  rl_ShortIds :: "string list"
  rl_MinClientVer :: string
  rl_MaxClientVer :: string
  rl_MaxTimeDiff :: int

record stream =
  st_Network :: string
  st_Settings :: settings
  st_Security :: string
  st_TLSConfig :: "tls_config option"
  st_RealityConfig :: "reality_config option"

section \<open>config.go\<close>

record traffic_sid =
  ts_NodeID :: string
  ts_SID :: string

record vless =
  v_Decryption :: string
  v_XorMode :: int
  v_SecondsFrom :: int
  v_SecondsTo :: int
  v_Padding :: string
  v_Flow :: string

record config =
  c_Port :: int
  c_Stream :: stream
  c_VLESS :: vless
  c_SpeedLimitUpBps :: int
  c_SpeedLimitDownBps :: int
  c_TrafficSIDs :: "traffic_sid list"

end
