(* ===== verification/Protocol.thy ===== *)
theory Protocol
  imports Model_Types
begin

text \<open>
  \<open>proxy/vless/protocol.go\<close>: the constants of the VLESS header and \<open>ParseUUID\<close>. A \<open>[16]byte\<close> is a
  list of sixteen bytes.
\<close>

section \<open>Constants\<close>

definition Version :: byte where "Version = 0"
definition CmdTCP :: byte where "CmdTCP = 1"
definition CmdUDP :: byte where "CmdUDP = 2"
definition CmdMux :: byte where "CmdMux = 3"
definition AddrTypeIPv4 :: byte where "AddrTypeIPv4 = 1"
definition AddrTypeDomain :: byte where "AddrTypeDomain = 2"
definition AddrTypeIPv6 :: byte where "AddrTypeIPv6 = 3"

lemmas protocol_consts = Version_def CmdTCP_def CmdUDP_def CmdMux_def
  AddrTypeIPv4_def AddrTypeDomain_def AddrTypeIPv6_def

type_synonym uuid = "byte list"

section \<open>ParseUUID\<close>

datatype uuid_error = InvalidUUIDLength string | InvalidHex

definition ParseUUID :: "string \<Rightarrow> uuid_error + uuid" where
  "ParseUUID s0 =
     (let s = removeAllChar (CHR ''-'') s0
      in if length s \<noteq> 32 then Inl (InvalidUUIDLength s)
         else (case hexDecode s of
                 None \<Rightarrow> Inl InvalidHex
               | Some decoded \<Rightarrow> Inr (copy_arr 16 decoded)))"

text \<open>The textual form the manager sends: 8-4-4-4-12 hexadecimal digits.\<close>

definition formatUUID :: "uuid \<Rightarrow> string" where
  "formatUUID b =
     join ''-'' [hexEncode (take 4 b), hexEncode (take 2 (drop 4 b)), hexEncode (take 2 (drop 6 b)),
                 hexEncode (take 2 (drop 8 b)), hexEncode (drop 10 b)]"

lemma removeAllChar_append [simp]:
  "removeAllChar c (s @ t) = removeAllChar c s @ removeAllChar c t"
  by (simp add: removeAllChar_def)

lemma removeAllChar_Cons [simp]:
  "removeAllChar c (x # s) = (if x = c then removeAllChar c s else x # removeAllChar c s)"
  by (simp add: removeAllChar_def)

lemma removeAllChar_Nil [simp]: "removeAllChar c [] = []"
  by (simp add: removeAllChar_def)

lemma removeAllChar_hexEncode [simp]: "removeAllChar (CHR ''-'') (hexEncode bs) = hexEncode bs"
  using dash_hexEncode [of bs] by (simp add: removeAllChar_def filter_id_conv) metis

lemma hexEncode_append: "hexEncode (xs @ ys) = hexEncode xs @ hexEncode ys"
  by (simp add: hexEncode_def)

lemma removeAllChar_formatUUID: "removeAllChar (CHR ''-'') (formatUUID b) = hexEncode b"
proof -
  have "removeAllChar (CHR ''-'') (formatUUID b) =
      hexEncode (take 4 b @ take 2 (drop 4 b) @ take 2 (drop 6 b) @ take 2 (drop 8 b) @ drop 10 b)"
    by (simp add: formatUUID_def hexEncode_append)
  also have "take 4 b @ take 2 (drop 4 b) @ take 2 (drop 6 b) @ take 2 (drop 8 b) @ drop 10 b = b"
    using append_take_drop_id [of 2 "drop 8 b"] append_take_drop_id [of 2 "drop 6 b"]
      append_take_drop_id [of 2 "drop 4 b"] append_take_drop_id [of 4 b] by simp
  finally show ?thesis .
qed

lemma ParseUUID_length: "ParseUUID s = Inr b \<Longrightarrow> length b = 16"
  by (auto simp: ParseUUID_def Let_def split: if_splits option.splits)

lemma ParseUUID_hexEncode:
  "removeAllChar (CHR ''-'') s = hexEncode b \<Longrightarrow> length b = 16 \<Longrightarrow> ParseUUID s = Inr b"
  by (simp add: ParseUUID_def copy_arr_exact)

section \<open>Properties\<close>

text \<open>C40: \<open>ParseUUID\<close> accepts exactly the strings that are 32 hexadecimal digits once their dashes are
  removed, returns the sixteen bytes those digits spell, and reads back the canonical text of every UUID,
  in either case.\<close>

theorem ParseUUID_correct:
  "(ParseUUID s = Inr b \<longleftrightarrow> hexDecode (removeAllChar (CHR ''-'') s) = Some b \<and> length b = 16) \<and>
   (length u = 16 \<longrightarrow> ParseUUID (formatUUID u) = Inr u \<and> ParseUUID (hexEncode u) = Inr u)"
proof -
  have "ParseUUID s = Inr b \<longleftrightarrow> hexDecode (removeAllChar (CHR ''-'') s) = Some b \<and> length b = 16"
    using hexDecode_length
    by (auto simp: ParseUUID_def Let_def copy_arr_exact split: if_splits option.splits)
  moreover have "ParseUUID (formatUUID u) = Inr u \<and> ParseUUID (hexEncode u) = Inr u" if "length u = 16"
    using that by (simp add: ParseUUID_hexEncode removeAllChar_formatUUID)
  ultimately show ?thesis by blast
qed

theorem ParseUUID_correct_witness:
  "ParseUUID (formatUUID (replicate 16 171)) = Inr (replicate 16 171)"
  using ParseUUID_correct [of "[]" "[]" "replicate 16 171"] by simp

end
