(* ===== verification/Server_State.thy ===== *)
theory Server_State
  imports Protocol
begin

text \<open>
  The state of \<open>proxy/vless\<close>: the \<open>Server\<close> struct (\<open>server.go\<close>), the types of its fields
  (\<open>ratelimit.go\<close>, \<open>quota.go\<close>, \<open>traffic.go\<close>) and its constructor. Values of third-party packages
  are opaque: \<open>'l\<close> is a \<open>*rate.Limiter\<close> of \<open>golang.org/x/time/rate\<close>, \<open>'d\<close> a
  \<open>*encryption.ServerInstance\<close> of xray-core; the functions of those packages the code calls are
  the fields of \<open>lib\<close>, an argument of the operations that use them.

  A \<open>net.Conn\<close> that is a map key is a number, its identity. What the operations do to the outside
  is recorded in the fields of \<open>world\<close>: the connections and listeners that were closed, the
  decryption instances that were closed, the \<open>WaitN\<close> calls made on limiters and the number of
  limiters allocated (so that two allocations are told apart).
\<close>

section \<open>Third-party functions\<close>

record ('l, 'd) lib =
  NewLimiter :: "nat \<Rightarrow> int \<Rightarrow> int \<Rightarrow> 'l" \<comment> \<open>allocation number, rate, burst\<close>
  Burst :: "'l \<Rightarrow> int"
  SI_Init :: "byte list list \<Rightarrow> int \<Rightarrow> int \<Rightarrow> int \<Rightarrow> string \<Rightarrow> 'd option" \<comment> \<open>\<open>None\<close>: \<open>Init\<close> returned an error\<close>
  SI_Handshake :: "'d \<Rightarrow> netin \<Rightarrow> netin option" \<comment> \<open>the decrypted stream; \<open>None\<close>: error\<close>
  AddonsFlow :: "byte list \<Rightarrow> string option" \<comment> \<open>\<open>proto.Unmarshal\<close> of \<open>encoding.Addons\<close>, its \<open>Flow\<close>\<close>

section \<open>The Server struct\<close>

type_synonym conn = nat
type_synonym shortid = "byte list"

record 'l rate_bucket =
  rb_b :: "'l option"
  rb_rate :: int

record quota_state =
  q_quota :: int
  q_base :: int
  q_accrual :: int
  q_cut :: bool

record traffic_stat =
  s_email :: string
  s_up :: int
  s_down :: int

text \<open>\<open>trafficKey\<close>: the user and the entry point.\<close>

type_synonym traffic_key = "uuid \<times> string"

record ('l, 'd) server =
  users :: "uuid \<rightharpoonup> user"
  port :: int
  stream_cfg :: stream
  vless_cfg :: vless
  ln :: "nat option"
  decryption :: "'d option"
  enableMux :: bool
  userConns :: "uuid \<rightharpoonup> conn set"
  userTraffic :: "traffic_key \<rightharpoonup> traffic_stat"
  userQuota :: "uuid \<rightharpoonup> quota_state"
  nodeID :: string
  sidNode :: "shortid \<rightharpoonup> string"
  globalULimiter :: "'l rate_bucket option"
  globalDLimiter :: "'l rate_bucket option"
  userULimiters :: "uuid \<rightharpoonup> 'l rate_bucket option"
  userDLimiters :: "uuid \<rightharpoonup> 'l rate_bucket option"

record ('l, 'd) world = "('l, 'd) server" +
  closed :: "conn set"
  closedLns :: "nat set"
  closedDecs :: "'d list"
  waits :: "('l \<times> int) list"
  allocs :: nat

section \<open>NewServer and SetNodeID\<close>

definition zeroStream :: stream where
  "zeroStream = \<lparr>st_Network = [], st_Settings = None, st_Security = [], st_TLSConfig = None,
     st_RealityConfig = None\<rparr>"

definition zeroVLESS :: vless where
  "zeroVLESS = \<lparr>v_Decryption = [], v_XorMode = 0, v_SecondsFrom = 0, v_SecondsTo = 0, v_Padding = [],
     v_Flow = []\<rparr>"

definition NewServer :: "('l, 'd) world" where
  "NewServer = \<lparr>users = Map.empty, port = 0, stream_cfg = zeroStream, vless_cfg = zeroVLESS,
     ln = None, decryption = None, enableMux = True, userConns = Map.empty, userTraffic = Map.empty,
     userQuota = Map.empty, nodeID = [], sidNode = Map.empty, globalULimiter = None,
     globalDLimiter = None, userULimiters = Map.empty, userDLimiters = Map.empty,
     closed = {}, closedLns = {}, closedDecs = [], waits = [], allocs = 0\<rparr>"

definition SetNodeID :: "string \<Rightarrow> ('l, 'd) world \<Rightarrow> ('l, 'd) world" where
  "SetNodeID nid w = w\<lparr>nodeID := nid\<rparr>"

text \<open>A fresh server over the simplest library values, for closed examples: a limiter is its
  construction arguments.\<close>

type_synonym ex_world = "(nat \<times> int \<times> int, unit) world"

abbreviation exNew :: ex_world where
  "exNew \<equiv> NewServer"

text \<open>A Go map read of a missing key gives the zero value; for a map of pointers that is nil, for a
  map of maps the empty map.\<close>

definition connsOf :: "('l, 'd) world \<Rightarrow> uuid \<Rightarrow> conn set" where
  "connsOf w u = (case userConns w u of None \<Rightarrow> {} | Some cs \<Rightarrow> cs)"

definition bucketOf :: "(uuid \<rightharpoonup> 'l rate_bucket option) \<Rightarrow> uuid \<Rightarrow> 'l rate_bucket option" where
  "bucketOf m u = (case m u of None \<Rightarrow> None | Some b \<Rightarrow> b)"

section \<open>Well-formed states\<close>

text \<open>What the operations keep true of the maps: keys have the length of their Go array type, the
  set of connections kept for a user is never empty, counters and limits hold 64-bit values.\<close>

definition wf_world :: "('l, 'd) world \<Rightarrow> bool" where
  "wf_world w \<longleftrightarrow>
     (\<forall>u \<in> dom (users w). length u = 16) \<and>
     (\<forall>u cs. userConns w u = Some cs \<longrightarrow> cs \<noteq> {}) \<and>
     (\<forall>k st. userTraffic w k = Some st \<longrightarrow> is_i64 (s_up st) \<and> is_i64 (s_down st)) \<and>
     (\<forall>u q. userQuota w u = Some q \<longrightarrow> is_i64 (q_accrual q)) \<and>
     (\<forall>sid \<in> dom (sidNode w). length sid = 8)"

lemma NewServer_wf: "wf_world NewServer"
  by (simp add: wf_world_def NewServer_def)

end
