(* ===== verification/Rate_Limit.thy ===== *)
theory Rate_Limit
  imports Server_State
begin

text \<open>
  \<open>proxy/vless/ratelimit.go\<close>: token buckets per user and for the node. \<open>rate.NewLimiter\<close>,
  \<open>Limiter.Burst\<close> and \<open>Limiter.WaitN\<close> are third-party: the first two are functions of \<open>lib\<close>, a
  \<open>WaitN\<close> call is recorded in \<open>waits\<close>.
\<close>

section \<open>Building buckets\<close>

definition minBurst :: int where "minBurst = 2 ^ 20"
definition maxBurst :: int where "maxBurst = 8 * 2 ^ 20"

definition burstFor :: "int \<Rightarrow> int" where
  "burstFor r = (let b = (if r < minBurst then minBurst else r)
                 in if b > maxBurst then maxBurst else b)"

definition newBucket :: "('l, 'd) lib \<Rightarrow> int \<Rightarrow> nat \<Rightarrow> 'l" where
  "newBucket L r k = NewLimiter L k r (burstFor r)"

text \<open>The allocation counter is threaded through: building a bucket allocates one limiter.\<close>

definition newRateBucket :: "('l, 'd) lib \<Rightarrow> int \<Rightarrow> nat \<Rightarrow> 'l rate_bucket option \<times> nat" where
  "newRateBucket L r k =
     (if r \<le> 0 then (None, k) else (Some \<lparr>rb_b = Some (newBucket L r k), rb_rate = r\<rparr>, Suc k))"

section \<open>Shaping\<close>

text \<open>The closure \<open>wait\<close> of \<open>applyLimits\<close>: nothing for a nil bucket or \<open>n \<le> 0\<close>; otherwise one
  \<open>WaitN\<close> for \<open>n\<close> tokens, clamped to the bucket's burst.\<close>

definition waitFor :: "('l, 'd) lib \<Rightarrow> 'l rate_bucket option \<Rightarrow> int \<Rightarrow> ('l, 'd) world \<Rightarrow> ('l, 'd) world" where
  "waitFor L rb n w =
     (case rb of
        None \<Rightarrow> w
      | Some b \<Rightarrow>
          (case rb_b b of
             None \<Rightarrow> w
           | Some lim \<Rightarrow>
               (if n \<le> 0 then w
                else (let tokens = (if n > Burst L lim then Burst L lim else n)
                      in w\<lparr>waits := waits w @ [(lim, tokens)]\<rparr>))))"

definition applyLimits :: "('l, 'd) lib \<Rightarrow> uuid \<Rightarrow> int \<Rightarrow> int \<Rightarrow> ('l, 'd) world \<Rightarrow> ('l, 'd) world" where
  "applyLimits L u up down w =
     (if up \<le> 0 \<and> down \<le> 0 then w
      else (let gu = globalULimiter w; gd = globalDLimiter w;
                uu = bucketOf (userULimiters w) u; ud = bucketOf (userDLimiters w) u
            in waitFor L ud down (waitFor L gd down (waitFor L uu up (waitFor L gu up w)))))"

section \<open>Lemmas\<close>

text \<open>What the library promises about a limiter it built, as the code relies on it.\<close>

definition limiter_laws :: "('l, 'd) lib \<Rightarrow> bool" where
  "limiter_laws L \<longleftrightarrow> (\<forall>k r b. Burst L (NewLimiter L k r b) = b)"

lemma burstFor_bounds: "minBurst \<le> burstFor r \<and> burstFor r \<le> maxBurst"
  by (simp add: burstFor_def minBurst_def maxBurst_def)

lemma burstFor_middle: "minBurst \<le> r \<Longrightarrow> r \<le> maxBurst \<Longrightarrow> burstFor r = r"
  by (simp add: burstFor_def)

lemma newRateBucket_none: "fst (newRateBucket L r k) = None \<longleftrightarrow> r \<le> 0"
  by (simp add: newRateBucket_def)

lemma newRateBucket_some:
  "0 < r \<Longrightarrow> newRateBucket L r k = (Some \<lparr>rb_b = Some (NewLimiter L k r (burstFor r)), rb_rate = r\<rparr>, Suc k)"
  by (simp add: newRateBucket_def newBucket_def)

text \<open>The tokens one bucket is asked for, and the frame: shaping touches only \<open>waits\<close>.\<close>

definition demand :: "('l, 'd) lib \<Rightarrow> 'l rate_bucket option \<Rightarrow> int \<Rightarrow> ('l \<times> int) list" where
  "demand L rb n =
     (case Option.bind rb rb_b of
        None \<Rightarrow> []
      | Some lim \<Rightarrow> if n \<le> 0 then [] else [(lim, min n (Burst L lim))])"

lemma waitFor_eq: "waitFor L rb n w = w\<lparr>waits := waits w @ demand L rb n\<rparr>"
  by (auto simp: waitFor_def demand_def min_def split: option.splits)

lemma applyLimits_eq:
  "applyLimits L u up down w = w\<lparr>waits := waits w
     @ demand L (globalULimiter w) up @ demand L (bucketOf (userULimiters w) u) up
     @ demand L (globalDLimiter w) down @ demand L (bucketOf (userDLimiters w) u) down\<rparr>"
  by (auto simp: applyLimits_def waitFor_eq Let_def demand_def split: option.splits)

lemma applyLimits_frame [frames, simp]:
  "users (applyLimits L u up down w) = users w"
  "userConns (applyLimits L u up down w) = userConns w"
  "userTraffic (applyLimits L u up down w) = userTraffic w"
  "userQuota (applyLimits L u up down w) = userQuota w"
  "closed (applyLimits L u up down w) = closed w"
  "vless_cfg (applyLimits L u up down w) = vless_cfg w"
  "decryption (applyLimits L u up down w) = decryption w"
  "enableMux (applyLimits L u up down w) = enableMux w"
  "sidNode (applyLimits L u up down w) = sidNode w"
  by (simp_all add: applyLimits_eq)

text \<open>A bucket as \<open>newRateBucket\<close> builds it, and the limiters it stands for.\<close>

definition built :: "('l, 'd) lib \<Rightarrow> 'l rate_bucket option \<Rightarrow> bool" where
  "built L rb \<longleftrightarrow> (case rb of None \<Rightarrow> True
     | Some b \<Rightarrow> (\<exists>k. 0 < rb_rate b \<and> rb_b b = Some (NewLimiter L k (rb_rate b) (burstFor (rb_rate b)))))"

definition limiters :: "'l rate_bucket option \<Rightarrow> 'l list" where
  "limiters rb = (case Option.bind rb rb_b of None \<Rightarrow> [] | Some l \<Rightarrow> [l])"

lemma built_demand:
  "limiter_laws L \<Longrightarrow> built L rb \<Longrightarrow> 0 < n \<Longrightarrow> n \<le> minBurst \<Longrightarrow> demand L rb n = map (\<lambda>l. (l, n)) (limiters rb)"
  using burstFor_bounds
  by (auto simp: built_def limiter_laws_def demand_def limiters_def min_def split: option.splits)
    (meson order_trans)

lemma demand_zero [simp]: "n \<le> 0 \<Longrightarrow> demand L rb n = []"
  by (simp add: demand_def split: option.splits)

lemma newRateBucket_built: "built L (fst (newRateBucket L r k))"
  by (auto simp: built_def newRateBucket_def newBucket_def)

text \<open>A library whose limiters are their construction arguments, for closed examples.\<close>

definition exLib :: "(nat \<times> int \<times> int, unit) lib" where
  "exLib = \<lparr>NewLimiter = (\<lambda>k r b. (k, r, b)), Burst = (\<lambda>(k, r, b). b), SI_Init = (\<lambda>_ _ _ _ _. None),
     SI_Handshake = (\<lambda>_ _. None), AddonsFlow = (\<lambda>_. Some [])\<rparr>"

lemma exLib_laws: "limiter_laws exLib"
  by (simp add: limiter_laws_def exLib_def)

section \<open>Properties\<close>

text \<open>\<open>newRateBucket\<close> gives no bucket exactly for a rate of zero or less (unlimited); otherwise one
  freshly allocated limiter that remembers the exact rate and whose burst is the rate clamped to
  [1 MiB, 8 MiB].\<close>

lemma newRateBucket_burst:
  assumes "limiter_laws L" and "newRateBucket L r k = (rb, k')"
  shows "(rb = None \<longleftrightarrow> r \<le> 0) \<and>
         (\<forall>b. rb = Some b \<longrightarrow> rb_rate b = r \<and> k' = Suc k \<and>
            (\<exists>l. rb_b b = Some l \<and> Burst L l = max (2 ^ 20) (min r (8 * 2 ^ 20))))"
  using assms
  by (auto simp: newRateBucket_def newBucket_def limiter_laws_def burstFor_def minBurst_def maxBurst_def
      min_def max_def split: if_splits)

lemma newRateBucket_burst_witness:
  "\<exists>b l. newRateBucket exLib 100 7 = (Some b, 8) \<and> rb_rate b = 100 \<and> rb_b b = Some l \<and> Burst exLib l = 2 ^ 20"
proof -
  obtain rb k' where rb: "newRateBucket exLib 100 7 = (rb, k')" by fastforce
  from newRateBucket_burst [OF exLib_laws rb] rb show ?thesis by (cases rb) auto
qed

text \<open>C39: a transfer of up to 1 MiB asks every limiter that applies to its direction (the node's and
  the user's) for exactly its size, in that order, and no other limiter: both caps are enforced, so the
  effective rate is the smaller one, and the clamp to the burst never loses tokens.\<close>

theorem applyLimits_up_down:
  assumes "limiter_laws L"
    and "built L (globalULimiter w)" "built L (bucketOf (userULimiters w) u)"
    and "built L (globalDLimiter w)" "built L (bucketOf (userDLimiters w) u)"
    and "0 < n" "n \<le> 2 ^ 20"
  shows "waits (applyLimits L u n 0 w) = waits w @ map (\<lambda>l. (l, n))
           (limiters (globalULimiter w) @ limiters (bucketOf (userULimiters w) u)) \<and>
         waits (applyLimits L u 0 n w) = waits w @ map (\<lambda>l. (l, n))
           (limiters (globalDLimiter w) @ limiters (bucketOf (userDLimiters w) u))"
  using assms by (simp add: applyLimits_eq built_demand minBurst_def)

theorem applyLimits_up_down_witness:
  "let rb = fst (newRateBucket exLib 100 0);
       w = exNew\<lparr>globalULimiter := rb, userULimiters := [[1] \<mapsto> rb]\<rparr>
   in waits (applyLimits exLib [1] 5 0 w) = [((0, 100, 2 ^ 20), 5), ((0, 100, 2 ^ 20), 5)]"
proof -
  let ?rb = "fst (newRateBucket exLib 100 0)"
  let ?w = "exNew\<lparr>globalULimiter := ?rb, userULimiters := [[1] \<mapsto> ?rb]\<rparr>"
  have b: "built exLib (globalULimiter ?w)" "built exLib (bucketOf (userULimiters ?w) [1])"
    "built exLib (globalDLimiter ?w)" "built exLib (bucketOf (userDLimiters ?w) [1])"
    by (simp_all add: newRateBucket_built bucketOf_def NewServer_def) (simp_all add: built_def)
  show ?thesis
    using applyLimits_up_down [OF exLib_laws b, of 5]
    by (simp add: Let_def NewServer_def bucketOf_def limiters_def newRateBucket_def newBucket_def
        exLib_def burstFor_def minBurst_def maxBurst_def)
qed

end
