(* ===== verification/Quota.thy ===== *)
theory Quota
  imports Rate_Limit
begin

text \<open>
  \<open>proxy/vless/quota.go\<close>: the node-local quota layer. \<open>ApplyUsage\<close> takes the order in which Go
  visits \<open>s.users\<close> (it matters only when two users share an email).
\<close>

section \<open>The operations\<close>

text \<open>\<open>qs.cut\<close> as \<open>ApplyUsage\<close> initialises it.\<close>

definition newQuotaState :: "user_usage \<Rightarrow> quota_state" where
  "newQuotaState u = \<lparr>q_quota = g_QuotaBytes u, q_base = g_UsedBytes u, q_accrual = 0,
     q_cut = (0 \<le> g_QuotaBytes u \<and> wrap64 (g_QuotaBytes u - g_UsedBytes u) \<le> 0)\<rparr>"

text \<open>The email of a user, empty for a user that is not there.\<close>

definition emailOf :: "(uuid \<rightharpoonup> user) \<Rightarrow> uuid \<Rightarrow> string" where
  "emailOf us u = (case us u of None \<Rightarrow> [] | Some r \<Rightarrow> u_Email r)"

definition emailUUIDs :: "uuid list \<Rightarrow> (uuid \<rightharpoonup> user) \<Rightarrow> (string \<rightharpoonup> uuid)" where
  "emailUUIDs ord us =
     fold (\<lambda>k m. case us k of None \<Rightarrow> m | Some u \<Rightarrow> m(u_Email u \<mapsto> k)) ord Map.empty"

definition newQuotas :: "(string \<rightharpoonup> uuid) \<Rightarrow> user_usage list \<Rightarrow> (uuid \<rightharpoonup> quota_state)" where
  "newQuotas em usage =
     fold (\<lambda>u m. case em (g_Email u) of None \<Rightarrow> m | Some k \<Rightarrow> m(k \<mapsto> newQuotaState u)) usage Map.empty"

definition ApplyUsage :: "uuid list \<Rightarrow> user_usage list \<Rightarrow> ('l, 'd) world \<Rightarrow> ('l, 'd) world" where
  "ApplyUsage ord usage w = w\<lparr>userQuota := newQuotas (emailUUIDs ord (users w)) usage\<rparr>"

definition userOverQuotaLocked :: "uuid \<Rightarrow> ('l, 'd) world \<Rightarrow> bool" where
  "userOverQuotaLocked u w = (case userQuota w u of None \<Rightarrow> False | Some qs \<Rightarrow> q_cut qs)"

definition userOverQuota :: "uuid \<Rightarrow> ('l, 'd) world \<Rightarrow> bool" where
  "userOverQuota u w = userOverQuotaLocked u w"

definition accrueQuotaLocked :: "uuid \<Rightarrow> int \<Rightarrow> ('l, 'd) world \<Rightarrow> ('l, 'd) world" where
  "accrueQuotaLocked u n w =
     (case userQuota w u of
        None \<Rightarrow> w
      | Some qs \<Rightarrow>
          (if q_quota qs < 0 \<or> n \<le> 0 then w
           else (let acc = wrap64 (q_accrual qs + n);
                     qs1 = qs\<lparr>q_accrual := acc\<rparr>;
                     remaining = wrap64 (wrap64 (q_quota qs - q_base qs) - acc);
                     w1 = w\<lparr>userQuota := (userQuota w)(u \<mapsto> qs1)\<rparr>
                 in if remaining > 0 \<or> q_cut qs then w1
                    else w1\<lparr>userQuota := (userQuota w)(u \<mapsto> qs1\<lparr>q_cut := True\<rparr>),
                            closed := closed w \<union> connsOf w u\<rparr>)))"

section \<open>The abstract contract\<close>

text \<open>One user's enforcement, as the comments of \<open>quota.go\<close> state it: no snapshot (or an unlimited
  one) enforces nothing; otherwise the user has some headroom left or is cut. Transferring \<open>n\<close> bytes
  uses up headroom; the user is cut when none is left.\<close>

datatype enforcement = Off | Headroom int | Cut

definition enf_snapshot :: "user_usage \<Rightarrow> enforcement" where
  "enf_snapshot u =
     (if g_QuotaBytes u < 0 then Off
      else if g_QuotaBytes u \<le> g_UsedBytes u then Cut
      else Headroom (g_QuotaBytes u - g_UsedBytes u))"

fun enf_step :: "int \<Rightarrow> enforcement \<Rightarrow> enforcement" where
  "enf_step n Off = Off"
| "enf_step n Cut = Cut"
| "enf_step n (Headroom r) = (if n \<le> 0 then Headroom r else if n < r then Headroom (r - n) else Cut)"

definition enf_abs :: "quota_state option \<Rightarrow> enforcement" where
  "enf_abs q = (case q of
      None \<Rightarrow> Off
    | Some qs \<Rightarrow> (if q_quota qs < 0 then Off
                 else if q_cut qs then Cut
                 else Headroom (q_quota qs - q_base qs - q_accrual qs)))"

text \<open>The numbers stay within \<open>int64\<close>: the snapshot's values are byte counts and the node has not
  counted \<open>2^61\<close> bytes since.\<close>

definition quota_sane :: "quota_state \<Rightarrow> bool" where
  "quota_sane qs \<longleftrightarrow> 0 \<le> q_base qs \<and> q_base qs < 2 ^ 61 \<and> q_quota qs < 2 ^ 61 \<and> -1 \<le> q_quota qs \<and>
     0 \<le> q_accrual qs \<and> q_accrual qs < 2 ^ 61"

text \<open>The state invariant: a user is marked cut exactly when the effective remaining is used up.\<close>

definition quota_inv :: "quota_state \<Rightarrow> bool" where
  "quota_inv qs \<longleftrightarrow> (q_cut qs \<longleftrightarrow> 0 \<le> q_quota qs \<and> q_quota qs - q_base qs - q_accrual qs \<le> 0)"

definition usage_sane :: "user_usage \<Rightarrow> bool" where
  "usage_sane u \<longleftrightarrow> 0 \<le> g_UsedBytes u \<and> g_UsedBytes u < 2 ^ 61 \<and> -1 \<le> g_QuotaBytes u \<and> g_QuotaBytes u < 2 ^ 61"

section \<open>Lemmas\<close>

lemma ApplyUsage_frame [frames, simp]:
  "users (ApplyUsage ord us w) = users w"
  "userConns (ApplyUsage ord us w) = userConns w"
  "userTraffic (ApplyUsage ord us w) = userTraffic w"
  "closed (ApplyUsage ord us w) = closed w"
  "sidNode (ApplyUsage ord us w) = sidNode w"
  "vless_cfg (ApplyUsage ord us w) = vless_cfg w"
  "connsOf (ApplyUsage ord us w) = connsOf w"
  by (simp_all add: ApplyUsage_def connsOf_def fun_eq_iff)

lemma accrue_frame [frames, simp]:
  "users (accrueQuotaLocked u n w) = users w"
  "userConns (accrueQuotaLocked u n w) = userConns w"
  "userTraffic (accrueQuotaLocked u n w) = userTraffic w"
  "sidNode (accrueQuotaLocked u n w) = sidNode w"
  "vless_cfg (accrueQuotaLocked u n w) = vless_cfg w"
  "decryption (accrueQuotaLocked u n w) = decryption w"
  "enableMux (accrueQuotaLocked u n w) = enableMux w"
  "globalULimiter (accrueQuotaLocked u n w) = globalULimiter w"
  "globalDLimiter (accrueQuotaLocked u n w) = globalDLimiter w"
  "userULimiters (accrueQuotaLocked u n w) = userULimiters w"
  "userDLimiters (accrueQuotaLocked u n w) = userDLimiters w"
  "waits (accrueQuotaLocked u n w) = waits w"
  "connsOf (accrueQuotaLocked u n w) = connsOf w"
  by (auto simp: accrueQuotaLocked_def Let_def connsOf_def fun_eq_iff split: option.splits)

lemma accrue_other: "v \<noteq> u \<Longrightarrow> userQuota (accrueQuotaLocked u n w) v = userQuota w v"
  by (auto simp: accrueQuotaLocked_def Let_def split: option.splits)

lemma accrue_None: "userQuota w u = None \<Longrightarrow> accrueQuotaLocked u n w = w"
  by (simp add: accrueQuotaLocked_def)

lemma accrue_closed: "closed w \<subseteq> closed (accrueQuotaLocked u n w)"
  "closed (accrueQuotaLocked u n w) \<subseteq> closed w \<union> connsOf w u"
  by (auto simp: accrueQuotaLocked_def Let_def split: option.splits)

text \<open>Once cut, a user's traffic closes nothing any more.\<close>

lemma accrue_cut_closed:
  "userQuota w u = Some qs \<Longrightarrow> q_cut qs \<Longrightarrow> closed (accrueQuotaLocked u n w) = closed w"
  by (auto simp: accrueQuotaLocked_def Let_def)

lemma accrue_keeps_cut:
  "userQuota w v = Some qs \<Longrightarrow> q_cut qs \<Longrightarrow> \<exists>qs'. userQuota (accrueQuotaLocked u n w) v = Some qs' \<and> q_cut qs'"
  by (auto simp: accrueQuotaLocked_def Let_def split: option.splits)

text \<open>Under the bounds the arithmetic does not wrap, and the operation is its exact version.\<close>

lemma accrue_exact:
  assumes q: "userQuota w u = Some qs" and sane: "quota_sane qs" "n < 2 ^ 61" and pos: "0 < n" "0 \<le> q_quota qs"
  shows "accrueQuotaLocked u n w =
     (let qs1 = qs\<lparr>q_accrual := q_accrual qs + n\<rparr>
      in if 0 < q_quota qs - q_base qs - (q_accrual qs + n) \<or> q_cut qs
         then w\<lparr>userQuota := (userQuota w)(u \<mapsto> qs1)\<rparr>
         else w\<lparr>userQuota := (userQuota w)(u \<mapsto> qs1\<lparr>q_cut := True\<rparr>), closed := closed w \<union> connsOf w u\<rparr>)"
proof -
  have "wrap64 (q_accrual qs + n) = q_accrual qs + n"
    using sane pos by (intro wrap64_id) (auto simp: is_i64_def quota_sane_def)
  moreover have "wrap64 (q_quota qs - q_base qs - (q_accrual qs + n)) = q_quota qs - q_base qs - (q_accrual qs + n)"
    using sane pos by (intro wrap64_id) (auto simp: is_i64_def quota_sane_def)
  ultimately show ?thesis
    using q pos by (simp add: accrueQuotaLocked_def Let_def)
qed

lemma newQuotaState_inv: "usage_sane u \<Longrightarrow> quota_inv (newQuotaState u) \<and> quota_sane (newQuotaState u)"
proof -
  assume s: "usage_sane u"
  then have "wrap64 (g_QuotaBytes u - g_UsedBytes u) = g_QuotaBytes u - g_UsedBytes u"
    by (intro wrap64_id) (auto simp: is_i64_def usage_sane_def)
  with s show ?thesis by (auto simp: quota_inv_def quota_sane_def newQuotaState_def usage_sane_def)
qed

lemma newQuotas_snoc: "newQuotas em (us @ [u]) =
    (case em (g_Email u) of None \<Rightarrow> newQuotas em us | Some k \<Rightarrow> (newQuotas em us)(k \<mapsto> newQuotaState u))"
  by (simp add: newQuotas_def split: option.split)

lemma emailUUIDs_snoc: "emailUUIDs (ord @ [a]) us =
    (case us a of None \<Rightarrow> emailUUIDs ord us | Some u \<Rightarrow> (emailUUIDs ord us)(u_Email u \<mapsto> a))"
  by (simp add: emailUUIDs_def split: option.split)

lemma newQuotas_origin:
  "newQuotas em usage k = Some q \<Longrightarrow> \<exists>u \<in> set usage. q = newQuotaState u \<and> em (g_Email u) = Some k"
proof (induction usage rule: rev_induct)
  case Nil
  then show ?case by (simp add: newQuotas_def)
next
  case (snoc u us)
  have step: "newQuotas em (us @ [u]) =
      (case em (g_Email u) of None \<Rightarrow> newQuotas em us | Some k \<Rightarrow> (newQuotas em us)(k \<mapsto> newQuotaState u))"
    by (rule newQuotas_snoc)
  show ?case
  proof (cases "em (g_Email u) = Some k")
    case True
    with snoc.prems step show ?thesis by auto
  next
    case False
    with snoc.prems step have "newQuotas em us k = Some q" by (auto split: option.splits)
    with snoc.IH show ?thesis by auto
  qed
qed

lemma emailUUIDs_origin: "emailUUIDs ord us e = Some k \<Longrightarrow> \<exists>u. us k = Some u \<and> u_Email u = e"
proof (induction ord rule: rev_induct)
  case Nil
  then show ?case by (simp add: emailUUIDs_def)
next
  case (snoc a ord)
  have "emailUUIDs (ord @ [a]) us =
      (case us a of None \<Rightarrow> emailUUIDs ord us | Some u \<Rightarrow> (emailUUIDs ord us)(u_Email u \<mapsto> a))"
      by (rule emailUUIDs_snoc)
  with snoc show ?case by (auto split: option.splits if_splits)
qed

text \<open>When no two users share an email, the order does not matter: the map is the inverse of the
  users' emails.\<close>

lemma emailUUIDs_distinct:
  assumes "enumerates ord us" and inj: "\<And>k k' u u'. us k = Some u \<Longrightarrow> us k' = Some u' \<Longrightarrow> u_Email u = u_Email u' \<Longrightarrow> k = k'"
    and "us k = Some u"
  shows "emailUUIDs ord us (u_Email u) = Some k"
proof -
  have "k \<in> set ord" using assms by (auto simp: enumerates_def)
  then show ?thesis
  proof (induction ord rule: rev_induct)
    case (snoc a ord)
    have step: "emailUUIDs (ord @ [a]) us =
      (case us a of None \<Rightarrow> emailUUIDs ord us | Some u \<Rightarrow> (emailUUIDs ord us)(u_Email u \<mapsto> a))"
      by (rule emailUUIDs_snoc)
    show ?case
    proof (cases "a = k")
      case True
      with step assms(3) show ?thesis by simp
    next
      case False
      with snoc have "emailUUIDs ord us (u_Email u) = Some k" by simp
      with False step inj assms(3) show ?thesis by (auto split: option.splits)
    qed
  qed simp
qed

lemma newQuotas_single:
  assumes "em e = Some k" and "u \<in> set usage" and "g_Email u = e"
    and "\<And>v. v \<in> set usage \<Longrightarrow> em (g_Email v) = Some k \<Longrightarrow> v = u"
  shows "newQuotas em usage k = Some (newQuotaState u)"
  using assms(2,4)
proof (induction usage rule: rev_induct)
  case (snoc v us)
  have step: "newQuotas em (us @ [v]) =
      (case em (g_Email v) of None \<Rightarrow> newQuotas em us | Some k \<Rightarrow> (newQuotas em us)(k \<mapsto> newQuotaState v))"
    by (rule newQuotas_snoc)
  show ?case
  proof (cases "em (g_Email v) = Some k")
    case True
    with snoc.prems have "v = u" by simp
    with True step show ?thesis by simp
  next
    case False
    then have "v \<noteq> u" using assms(1,3) by auto
    with snoc.prems have "newQuotas em us k = Some (newQuotaState u)"
      by (intro snoc.IH) auto
    with False step show ?thesis by (auto split: option.splits)
  qed
qed simp

section \<open>Properties\<close>

text \<open>C3: counting \<open>n\<close> bytes for a user implements the abstract contract: the user's enforcement state
  takes the step of the contract, the invariant is kept, nobody else's state changes, and exactly when
  the step is the cut all connections registered for her are closed (and no other).\<close>

theorem accrue_refines:
  assumes "userQuota w u = Some qs" "quota_sane qs" "quota_inv qs" "0 < n" "n < 2 ^ 61"
  shows "enf_abs (userQuota (accrueQuotaLocked u n w) u) = enf_step n (enf_abs (userQuota w u)) \<and>
    (\<forall>q. userQuota (accrueQuotaLocked u n w) u = Some q \<longrightarrow> quota_inv q) \<and>
    (\<forall>v. v \<noteq> u \<longrightarrow> userQuota (accrueQuotaLocked u n w) v = userQuota w v) \<and>
    closed (accrueQuotaLocked u n w) =
      (if enf_abs (userQuota w u) \<noteq> Cut \<and> enf_step n (enf_abs (userQuota w u)) = Cut
       then closed w \<union> connsOf w u else closed w)"
proof (cases "q_quota qs < 0")
  case True
  with assms show ?thesis
    by (auto simp: accrueQuotaLocked_def enf_abs_def)
next
  case False
  then have "0 \<le> q_quota qs" by simp
  note ex = accrue_exact [OF assms(1,2) assms(5) assms(4) this]
  show ?thesis
    unfolding ex using assms False by (auto simp: enf_abs_def quota_inv_def Let_def)
qed

theorem accrue_refines_witness:
  "let w = exNew\<lparr>userQuota := [[1] \<mapsto> \<lparr>q_quota = 100, q_base = 90, q_accrual = 5, q_cut = False\<rparr>],
                     userConns := [[1] \<mapsto> {7, 8}]\<rparr>
   in enf_abs (userQuota (accrueQuotaLocked [1] 10 w) [1]) = Cut \<and>
      closed (accrueQuotaLocked [1] 10 w) = {7, 8}"
proof -
  let ?w = "exNew\<lparr>userQuota := [[1] \<mapsto> \<lparr>q_quota = 100, q_base = 90, q_accrual = 5, q_cut = False\<rparr>],
                     userConns := [[1] \<mapsto> {7, 8}]\<rparr>"
  have q: "userQuota ?w [1] = Some \<lparr>q_quota = 100, q_base = 90, q_accrual = 5, q_cut = False\<rparr>" by simp
  have a: "enf_abs (Some \<lparr>q_quota = 100, q_base = 90, q_accrual = 5, q_cut = False\<rparr>) = Headroom 5" by (simp add: enf_abs_def)
  have c: "closed ?w = {}" "connsOf ?w [1] = {7, 8}" by (simp_all add: NewServer_def connsOf_def)
  show ?thesis
    using accrue_refines [OF q, of 10] by (simp add: a c quota_sane_def quota_inv_def Let_def)
qed

text \<open>C30: after a \<open>/usage\<close> snapshot with distinct emails every user of the node has the enforcement state
  of her own entry (off when there is none or it is unlimited, cut when the cap is already used up), and
  whoever is not a user of the node has none, whatever the order of the map iteration.\<close>

theorem ApplyUsage_snapshot:
  assumes "enumerates ord (users w)"
    and "inj_on (\<lambda>k. emailOf (users w) k) (dom (users w))"
    and "distinct (map g_Email usage)" "list_all usage_sane usage"
  shows "enf_abs (userQuota (ApplyUsage ord usage w) k) =
     (case users w k of None \<Rightarrow> Off
      | Some r \<Rightarrow> (case find (\<lambda>u. g_Email u = u_Email r) usage of None \<Rightarrow> Off | Some u \<Rightarrow> enf_snapshot u))"
proof -
  let ?em = "emailUUIDs ord (users w)"
  have inj: "k = k'" if "users w k = Some u" "users w k' = Some u'" "u_Email u = u_Email u'" for k k' u u'
    using assms(2) that by (auto simp: inj_on_def emailOf_def dom_def)
  have snap: "enf_abs (Some (newQuotaState u)) = enf_snapshot u" if "u \<in> set usage" for u
  proof -
    have "usage_sane u" using assms(4) that by (auto simp: list_all_iff)
    then have "wrap64 (g_QuotaBytes u - g_UsedBytes u) = g_QuotaBytes u - g_UsedBytes u"
      by (intro wrap64_id) (auto simp: is_i64_def usage_sane_def)
    then show ?thesis by (auto simp: enf_abs_def newQuotaState_def enf_snapshot_def)
  qed
  show ?thesis
  proof (cases "users w k")
    case None
    then have "newQuotas ?em usage k = None"
      by (metis emailUUIDs_origin newQuotas_origin not_None_eq)
    with None show ?thesis by (simp add: ApplyUsage_def enf_abs_def)
  next
    case (Some r)
    have em: "?em (u_Email r) = Some k"
      by (rule emailUUIDs_distinct [OF assms(1) _ Some]) (rule inj)
    show ?thesis
    proof (cases "find (\<lambda>u. g_Email u = u_Email r) usage")
      case None
      have "newQuotas ?em usage k = None"
      proof (rule ccontr)
        assume "newQuotas ?em usage k \<noteq> None"
        then obtain u where "u \<in> set usage" "?em (g_Email u) = Some k"
          using newQuotas_origin by blast
        with Some None show False
          using emailUUIDs_origin [of ord "users w" "g_Email u" k] by (auto simp: find_None_iff)
      qed
      with Some None show ?thesis by (simp add: ApplyUsage_def enf_abs_def)
    next
      case (Some u)
      then have u: "u \<in> set usage" "g_Email u = u_Email r"
        by (auto simp: find_Some_iff)
      have "v = u" if "v \<in> set usage" "?em (g_Email v) = Some k" for v
      proof -
        have "g_Email v = u_Email r"
          using emailUUIDs_origin [OF that(2)] \<open>users w k = Some r\<close> by auto
        with that(1) u assms(3) show ?thesis by (auto simp: distinct_map inj_on_def)
      qed
      then have "newQuotas ?em usage k = Some (newQuotaState u)"
        by (rule newQuotas_single [where em = ?em and e = "u_Email r", OF em u])
      with \<open>users w k = Some r\<close> Some u snap show ?thesis by (simp add: ApplyUsage_def)
    qed
  qed
qed

theorem ApplyUsage_snapshot_witness:
  "let r = \<lparr>u_ID = [], u_Email = ''e'', u_Level = 0, u_ExpireAt = 0, u_SpeedLimitUpBps = 0, u_SpeedLimitDownBps = 0\<rparr>;
       w = exNew\<lparr>users := [[1] \<mapsto> r]\<rparr>
   in enf_abs (userQuota (ApplyUsage [[1]] [\<lparr>g_Email = ''e'', g_QuotaBytes = 100, g_UsedBytes = 40\<rparr>] w) [1]) =
      Headroom 60"
proof -
  let ?r = "\<lparr>u_ID = [], u_Email = ''e'', u_Level = 0, u_ExpireAt = 0, u_SpeedLimitUpBps = 0, u_SpeedLimitDownBps = 0\<rparr>"
  let ?w = "exNew\<lparr>users := [[1] \<mapsto> ?r]\<rparr>"
  have "enumerates [[1]] (users ?w)" "inj_on (\<lambda>k. emailOf (users ?w) k) (dom (users ?w))"
    by (simp_all add: enumerates_def inj_on_def)
  from ApplyUsage_snapshot [OF this, of "[\<lparr>g_Email = ''e'', g_QuotaBytes = 100, g_UsedBytes = 40\<rparr>]" "[1]"]
  show ?thesis by (simp add: usage_sane_def enf_snapshot_def)
qed

end
