(* ===== verification/Traffic.thy ===== *)
theory Traffic
  imports Quota
begin

text \<open>
  \<open>proxy/vless/traffic.go\<close>: the per-user, per-entry-point counters. Every counted chunk also
  accrues against the user's quota snapshot. \<open>GetAndResetTraffic\<close> takes the order in which Go
  visits \<open>s.userTraffic\<close>.
\<close>

section \<open>addTraffic\<close>

definition ensureStat :: "traffic_key \<Rightarrow> ('l, 'd) world \<Rightarrow> traffic_stat" where
  "ensureStat k w = (case userTraffic w k of
      None \<Rightarrow> \<lparr>s_email = emailOf (users w) (fst k), s_up = 0, s_down = 0\<rparr>
    | Some st \<Rightarrow> st)"

definition addTraffic :: "uuid \<Rightarrow> string \<Rightarrow> int \<Rightarrow> int \<Rightarrow> ('l, 'd) world \<Rightarrow> ('l, 'd) world" where
  "addTraffic u node up down w =
     (let key = (u, node);
          st = ensureStat key w;
          st' = st\<lparr>s_up := wrap64 (s_up st + up), s_down := wrap64 (s_down st + down)\<rparr>;
          w' = w\<lparr>userTraffic := (userTraffic w)(key \<mapsto> st')\<rparr>;
          n = wrap64 (up + down)
      in if n > 0 then accrueQuotaLocked u n w' else w')"

section \<open>countingConn, accountReader, accountWriter\<close>

text \<open>What a \<open>Read\<close> (\<open>Write\<close>) of the counting connection does to the server when the wrapped
  connection transferred \<open>n\<close> bytes.\<close>

definition countingRead :: "('l, 'd) lib \<Rightarrow> uuid \<Rightarrow> string \<Rightarrow> int \<Rightarrow> ('l, 'd) world \<Rightarrow> ('l, 'd) world" where
  "countingRead L u node n w =
     (if n > 0 then applyLimits L u n 0 (addTraffic u node n 0 w) else w)"

definition countingWrite :: "('l, 'd) lib \<Rightarrow> uuid \<Rightarrow> string \<Rightarrow> int \<Rightarrow> ('l, 'd) world \<Rightarrow> ('l, 'd) world" where
  "countingWrite L u node n w =
     (if n > 0 then applyLimits L u 0 n (addTraffic u node 0 n w) else w)"

text \<open>\<open>rateLimitedConn\<close> shapes without accounting: a read from the destination is download, a write
  to it upload.\<close>

definition limitedRead :: "('l, 'd) lib \<Rightarrow> uuid \<Rightarrow> int \<Rightarrow> ('l, 'd) world \<Rightarrow> ('l, 'd) world" where
  "limitedRead L u n w = (if n > 0 then applyLimits L u 0 n w else w)"

definition limitedWrite :: "('l, 'd) lib \<Rightarrow> uuid \<Rightarrow> int \<Rightarrow> ('l, 'd) world \<Rightarrow> ('l, 'd) world" where
  "limitedWrite L u n w = (if n > 0 then applyLimits L u n 0 w else w)"

text \<open>The chunk hooks: \<open>fn\<close> is called with the length of a non-empty multi-buffer (the reader after
  the read, the writer before the write).\<close>

definition accountChunk :: "(int \<Rightarrow> ('l, 'd) world \<Rightarrow> ('l, 'd) world) \<Rightarrow> byte list \<Rightarrow> ('l, 'd) world \<Rightarrow> ('l, 'd) world" where
  "accountChunk fn mb w = (if mb = [] then w else fn (int (length mb)) w)"

section \<open>Entry points and reports\<close>

definition nodeForShortID :: "shortid \<Rightarrow> ('l, 'd) world \<Rightarrow> string" where
  "nodeForShortID sid w = (case sidNode w sid of None \<Rightarrow> [] | Some n \<Rightarrow> n)"

text \<open>One round of the reporting loop, for the entry \<open>k\<close>; the accumulator is the report list.\<close>

definition resetStep :: "traffic_key \<Rightarrow> user_traffic list \<times> ('l, 'd) world \<Rightarrow> user_traffic list \<times> ('l, 'd) world" where
  "resetStep k acc =
     (let (out, w) = acc in
      case userTraffic w k of
        None \<Rightarrow> acc
      | Some st \<Rightarrow>
          (let up = s_up st; down = s_down st; st0 = st\<lparr>s_up := 0, s_down := 0\<rparr> in
           if up > 0 \<or> down > 0 then
             (let email = (if s_email st = [] then emailOf (users w) (fst k) else s_email st);
                  w' = w\<lparr>userTraffic := (userTraffic w)(k \<mapsto> st0\<lparr>s_email := email\<rparr>)\<rparr>
              in if email \<noteq> []
                 then (out @ [\<lparr>t_Email = email, t_NodeID = snd k, t_Up = up, t_Down = down\<rparr>], w')
                 else (out, w'))
           else if users w (fst k) = None
                then (out, w\<lparr>userTraffic := (userTraffic w)(k := None)\<rparr>)
                else (out, w\<lparr>userTraffic := (userTraffic w)(k \<mapsto> st0)\<rparr>)))"

definition GetAndResetTraffic :: "traffic_key list \<Rightarrow> ('l, 'd) world \<Rightarrow> user_traffic list \<times> ('l, 'd) world" where
  "GetAndResetTraffic ord w = fold resetStep ord ([], w)"

section \<open>Lemmas: counting\<close>

text \<open>The counters of a key, with absent entries read as zero.\<close>

definition counter :: "('l, 'd) world \<Rightarrow> traffic_key \<Rightarrow> int \<times> int" where
  "counter w k = (case userTraffic w k of None \<Rightarrow> (0, 0) | Some st \<Rightarrow> (s_up st, s_down st))"

lemma addTraffic_userTraffic:
  "userTraffic (addTraffic u node up down w) =
     (userTraffic w)((u, node) \<mapsto> (ensureStat (u, node) w)
        \<lparr>s_up := wrap64 (s_up (ensureStat (u, node) w) + up),
         s_down := wrap64 (s_down (ensureStat (u, node) w) + down)\<rparr>)"
  by (simp add: addTraffic_def Let_def)

lemma addTraffic_frame [frames, simp]:
  "users (addTraffic u node up down w) = users w"
  "userConns (addTraffic u node up down w) = userConns w"
  "sidNode (addTraffic u node up down w) = sidNode w"
  "vless_cfg (addTraffic u node up down w) = vless_cfg w"
  "decryption (addTraffic u node up down w) = decryption w"
  "enableMux (addTraffic u node up down w) = enableMux w"
  "globalULimiter (addTraffic u node up down w) = globalULimiter w"
  "globalDLimiter (addTraffic u node up down w) = globalDLimiter w"
  "userULimiters (addTraffic u node up down w) = userULimiters w"
  "userDLimiters (addTraffic u node up down w) = userDLimiters w"
  "waits (addTraffic u node up down w) = waits w"
  "connsOf (addTraffic u node up down w) = connsOf w"
  by (auto simp: addTraffic_def Let_def connsOf_def fun_eq_iff)

lemma addTraffic_quota:
  "userQuota (addTraffic u node up down w) =
     userQuota (if wrap64 (up + down) > 0 then accrueQuotaLocked u (wrap64 (up + down)) w else w)"
  "closed (addTraffic u node up down w) =
     closed (if wrap64 (up + down) > 0 then accrueQuotaLocked u (wrap64 (up + down)) w else w)"
  by (auto simp: addTraffic_def accrueQuotaLocked_def Let_def connsOf_def split: option.splits)

lemma addTraffic_counter:
  "counter (addTraffic u node up down w) k =
     (if k = (u, node) then (wrap64 (fst (counter w k) + up), wrap64 (snd (counter w k) + down))
      else counter w k)"
  by (auto simp: counter_def addTraffic_userTraffic ensureStat_def split: option.splits)

text \<open>A list of counted chunks, each with its key and its two byte counts.\<close>

type_synonym chunk = "uuid \<times> string \<times> int \<times> int"

definition addChunk :: "chunk \<Rightarrow> ('l, 'd) world \<Rightarrow> ('l, 'd) world" where
  "addChunk c w = (let (u, node, up, down) = c in addTraffic u node up down w)"

definition upOf :: "traffic_key \<Rightarrow> chunk list \<Rightarrow> int" where
  "upOf k cs = sum_list (map (\<lambda>(u, node, up, down). if (u, node) = k then up else 0) cs)"

definition downOf :: "traffic_key \<Rightarrow> chunk list \<Rightarrow> int" where
  "downOf k cs = sum_list (map (\<lambda>(u, node, up, down). if (u, node) = k then down else 0) cs)"

lemma upOf_simps [simp]:
  "upOf k [] = 0" "upOf k ((u, node, up, down) # cs) = (if (u, node) = k then up else 0) + upOf k cs"
  by (simp_all add: upOf_def)

lemma downOf_simps [simp]:
  "downOf k [] = 0" "downOf k ((u, node, up, down) # cs) = (if (u, node) = k then down else 0) + downOf k cs"
  by (simp_all add: downOf_def)

lemma fold_addChunk_counter:
  assumes "is_i64 (fst (counter w k))" "is_i64 (snd (counter w k))"
  shows "counter (fold addChunk cs w) k =
     (wrap64 (fst (counter w k) + upOf k cs), wrap64 (snd (counter w k) + downOf k cs))"
  using assms
proof (induction cs arbitrary: w)
  case Nil
  then show ?case by (simp add: wrap64_id)
next
  case (Cons c cs)
  obtain u node up down where c: "c = (u, node, up, down)" by (cases c)
  have "counter (addChunk c w) k =
      (if (u, node) = k then (wrap64 (fst (counter w k) + up), wrap64 (snd (counter w k) + down))
       else counter w k)"
    by (simp add: c addChunk_def addTraffic_counter)
  with Cons show ?case by (auto simp: c algebra_simps)
qed

lemma fold_addChunk_frame [frames, simp]:
  "users (fold addChunk cs w) = users w"
  "userConns (fold addChunk cs w) = userConns w"
  "connsOf (fold addChunk cs w) = connsOf w"
  by (induction cs arbitrary: w) (auto simp: addChunk_def split: prod.splits)

section \<open>Lemmas: reporting\<close>

definition reportEmail :: "(uuid \<rightharpoonup> user) \<Rightarrow> traffic_key \<Rightarrow> traffic_stat \<Rightarrow> string" where
  "reportEmail us k st = (if s_email st = [] then emailOf us (fst k) else s_email st)"

definition reportOf :: "('l, 'd) world \<Rightarrow> traffic_key \<Rightarrow> user_traffic list" where
  "reportOf w k = (case userTraffic w k of
      None \<Rightarrow> []
    | Some st \<Rightarrow> (if (s_up st > 0 \<or> s_down st > 0) \<and> reportEmail (users w) k st \<noteq> []
        then [\<lparr>t_Email = reportEmail (users w) k st, t_NodeID = snd k, t_Up = s_up st, t_Down = s_down st\<rparr>]
        else []))"

definition statAfter :: "(uuid \<rightharpoonup> user) \<Rightarrow> traffic_key \<Rightarrow> traffic_stat option \<Rightarrow> traffic_stat option" where
  "statAfter us k so = (case so of
      None \<Rightarrow> None
    | Some st \<Rightarrow>
        (if s_up st > 0 \<or> s_down st > 0
         then Some (st\<lparr>s_up := 0, s_down := 0, s_email := reportEmail us k st\<rparr>)
         else if us (fst k) = None then None
         else Some (st\<lparr>s_up := 0, s_down := 0\<rparr>)))"

lemma resetStep_eq:
  "resetStep k (out, w) =
     (out @ reportOf w k, w\<lparr>userTraffic := (userTraffic w)(k := statAfter (users w) k (userTraffic w k))\<rparr>)"
proof (cases "userTraffic w k")
  case None
  then show ?thesis by (simp add: resetStep_def reportOf_def statAfter_def fun_upd_idem)
next
  case (Some st)
  show ?thesis
  proof (cases "s_up st > 0 \<or> s_down st > 0")
    case True
    with Some show ?thesis
      by (simp add: resetStep_def reportOf_def statAfter_def reportEmail_def Let_def)
  next
    case False
    with Some show ?thesis by (simp add: resetStep_def reportOf_def statAfter_def Let_def)
  qed
qed

lemma fold_resetStep:
  assumes "distinct ord"
  shows "fold resetStep ord (out, w) =
     (out @ concat (map (reportOf w) ord),
      w\<lparr>userTraffic := \<lambda>k. if k \<in> set ord then statAfter (users w) k (userTraffic w k) else userTraffic w k\<rparr>)"
  using assms
proof (induction ord arbitrary: out w)
  case Nil
  then show ?case by simp
next
  case (Cons a ord)
  let ?w = "w\<lparr>userTraffic := (userTraffic w)(a := statAfter (users w) a (userTraffic w a))\<rparr>"
  have reports: "map (reportOf ?w) ord = map (reportOf w) ord"
    using Cons.prems by (auto simp: reportOf_def split: option.split)
  have stats: "(\<lambda>k. if k \<in> set ord then statAfter (users ?w) k (userTraffic ?w k) else userTraffic ?w k) =
      (\<lambda>k. if k \<in> set (a # ord) then statAfter (users w) k (userTraffic w k) else userTraffic w k)"
    using Cons.prems by (auto simp: fun_eq_iff)
  have "fold resetStep (a # ord) (out, w) = fold resetStep ord (out @ reportOf w a, ?w)"
    by (simp add: resetStep_eq)
  also have "\<dots> = ((out @ reportOf w a) @ concat (map (reportOf ?w) ord),
      ?w\<lparr>userTraffic := \<lambda>k. if k \<in> set ord then statAfter (users ?w) k (userTraffic ?w k) else userTraffic ?w k\<rparr>)"
    using Cons.prems by (intro Cons.IH) simp
  also have "\<dots> = (out @ concat (map (reportOf w) (a # ord)),
      w\<lparr>userTraffic := \<lambda>k. if k \<in> set (a # ord) then statAfter (users w) k (userTraffic w k) else userTraffic w k\<rparr>)"
    unfolding reports stats by simp
  finally show ?case .
qed

lemma statAfter_None [simp]: "statAfter us k None = None"
  by (simp add: statAfter_def)

lemma GetAndResetTraffic_eq:
  assumes "enumerates ord (userTraffic w)"
  shows "GetAndResetTraffic ord w =
     (concat (map (reportOf w) ord), w\<lparr>userTraffic := \<lambda>k. statAfter (users w) k (userTraffic w k)\<rparr>)"
proof -
  have "(\<lambda>k. if k \<in> set ord then statAfter (users w) k (userTraffic w k) else userTraffic w k) =
      (\<lambda>k. statAfter (users w) k (userTraffic w k))"
    using assms by (auto simp: fun_eq_iff enumerates_def)
  then show ?thesis
    using assms fold_resetStep [of ord "[]" w] by (simp add: GetAndResetTraffic_def enumerates_def)
qed

text \<open>The bytes a report credits to one email on one entry point.\<close>

definition credited :: "string \<Rightarrow> string \<Rightarrow> user_traffic list \<Rightarrow> int \<times> int" where
  "credited e node ts =
     (sum_list (map (\<lambda>t. if t_Email t = e \<and> t_NodeID t = node then t_Up t else 0) ts),
      sum_list (map (\<lambda>t. if t_Email t = e \<and> t_NodeID t = node then t_Down t else 0) ts))"

lemma counter_statAfter: "counter (w\<lparr>userTraffic := \<lambda>k. statAfter us k (userTraffic w k)\<rparr>) k = (0, 0)"
  by (simp add: counter_def statAfter_def split: option.splits)

lemma reportOf_after: "reportOf (w\<lparr>userTraffic := \<lambda>k. statAfter (users w) k (userTraffic w k)\<rparr>) k = []"
  by (auto simp: reportOf_def statAfter_def split: option.splits)

lemma reportOf_entry:
  assumes "k \<in> set ord" "distinct ord" "reportOf w k = [t]"
  shows "filter (\<lambda>x. x = k) ord = [k]"
  using assms(1,2) by (induction ord) (auto simp: filter_empty_conv)

end
