(* ===== verification/Users.thy ===== *)
theory Users
  imports Traffic
begin

text \<open>
  \<open>proxy/vless/user.go\<close>: replacing the user set, and the registry of each user's live connections.
  \<open>UpdateUsers\<close> takes the order in which Go visits the old user map when it closes the connections
  of removed users.
\<close>

section \<open>UpdateUsers\<close>

text \<open>The three new maps and the allocation counter, as the first loop builds them.\<close>

record 'l user_maps =
  m_users :: "uuid \<rightharpoonup> user"
  m_ul :: "uuid \<rightharpoonup> 'l rate_bucket option"
  m_dl :: "uuid \<rightharpoonup> 'l rate_bucket option"
  m_allocs :: nat

text \<open>Reuse the bucket when the limit is unchanged, build a fresh one otherwise.\<close>

definition reuseOrNew :: "('l, 'd) lib \<Rightarrow> (uuid \<rightharpoonup> 'l rate_bucket option) \<Rightarrow> uuid \<Rightarrow> int \<Rightarrow> nat
    \<Rightarrow> 'l rate_bucket option \<times> nat" where
  "reuseOrNew L old u r k =
     (case old u of
        Some (Some b) \<Rightarrow> (if rb_rate b = r then (Some b, k) else newRateBucket L r k)
      | _ \<Rightarrow> newRateBucket L r k)"

definition addUser :: "('l, 'd) lib \<Rightarrow> (uuid \<rightharpoonup> 'l rate_bucket option) \<Rightarrow> (uuid \<rightharpoonup> 'l rate_bucket option)
    \<Rightarrow> user \<Rightarrow> 'l user_maps \<Rightarrow> 'l user_maps" where
  "addUser L oldU oldD u m =
     (case ParseUUID (u_ID u) of
        Inl _ \<Rightarrow> m
      | Inr uuid \<Rightarrow>
          (let (ub, k1) = reuseOrNew L oldU uuid (u_SpeedLimitUpBps u) (m_allocs m);
               (db, k2) = reuseOrNew L oldD uuid (u_SpeedLimitDownBps u) k1
           in \<lparr>m_users = (m_users m)(uuid \<mapsto> u), m_ul = (m_ul m)(uuid \<mapsto> ub),
               m_dl = (m_dl m)(uuid \<mapsto> db), m_allocs = k2\<rparr>))"

text \<open>The second loop, for one old user.\<close>

definition dropUser :: "(uuid \<rightharpoonup> user) \<Rightarrow> uuid \<Rightarrow> ('l, 'd) world \<Rightarrow> ('l, 'd) world" where
  "dropUser newUsers u w =
     (if newUsers u \<noteq> None then w
      else (let w1 = (case userConns w u of
                  None \<Rightarrow> w
                | Some conns \<Rightarrow> w\<lparr>closed := closed w \<union> conns, userConns := (userConns w)(u := None)\<rparr>)
            in w1\<lparr>userULimiters := (userULimiters w1)(u := None),
                  userDLimiters := (userDLimiters w1)(u := None),
                  userQuota := (userQuota w1)(u := None)\<rparr>))"

definition UpdateUsers :: "('l, 'd) lib \<Rightarrow> uuid list \<Rightarrow> user list \<Rightarrow> ('l, 'd) world \<Rightarrow> ('l, 'd) world" where
  "UpdateUsers L ord us w =
     (let m = fold (addUser L (userULimiters w) (userDLimiters w)) us
                \<lparr>m_users = Map.empty, m_ul = Map.empty, m_dl = Map.empty, m_allocs = allocs w\<rparr>;
          w1 = w\<lparr>users := m_users m, userULimiters := m_ul m, userDLimiters := m_dl m,
                 allocs := m_allocs m\<rparr>
      in fold (dropUser (m_users m)) ord w1)"

section \<open>addConn and removeConn\<close>

definition addConn :: "uuid \<Rightarrow> conn \<Rightarrow> ('l, 'd) world \<Rightarrow> ('l, 'd) world" where
  "addConn u c w = w\<lparr>userConns := (userConns w)(u \<mapsto> insert c (connsOf w u))\<rparr>"

definition removeConn :: "uuid \<Rightarrow> conn \<Rightarrow> ('l, 'd) world \<Rightarrow> ('l, 'd) world" where
  "removeConn u c w =
     (case userConns w u of
        None \<Rightarrow> w
      | Some conns \<Rightarrow>
          (let conns' = conns - {c}
           in if conns' = {} then w\<lparr>userConns := (userConns w)(u := None)\<rparr>
              else w\<lparr>userConns := (userConns w)(u \<mapsto> conns')\<rparr>))"

section \<open>Lemmas\<close>

text \<open>What the manager's list means: the last entry with a parsable ID wins.\<close>

definition userMap :: "user list \<Rightarrow> (uuid \<rightharpoonup> user)" where
  "userMap us = fold (\<lambda>u m. case ParseUUID (u_ID u) of Inl _ \<Rightarrow> m | Inr k \<Rightarrow> m(k \<mapsto> u)) us Map.empty"

lemma userMap_snoc: "userMap (us @ [u]) =
    (case ParseUUID (u_ID u) of Inl _ \<Rightarrow> userMap us | Inr k \<Rightarrow> (userMap us)(k \<mapsto> u))"
  by (simp add: userMap_def split: sum.split)

lemma userMap_origin: "userMap us k = Some u \<Longrightarrow> u \<in> set us \<and> ParseUUID (u_ID u) = Inr k"
  by (induction us rule: rev_induct) (auto simp: userMap_snoc split: sum.splits if_splits, simp add: userMap_def)

lemma userMap_None: "userMap us k = None \<longleftrightarrow> (\<forall>u \<in> set us. ParseUUID (u_ID u) \<noteq> Inr k)"
  by (induction us rule: rev_induct) (auto simp: userMap_snoc split: sum.splits, simp add: userMap_def)

lemma addUser_users:
  "m_users (fold (addUser L oldU oldD) us m) =
     fold (\<lambda>u m. case ParseUUID (u_ID u) of Inl _ \<Rightarrow> m | Inr k \<Rightarrow> m(k \<mapsto> u)) us (m_users m)"
  by (induction us arbitrary: m) (auto simp: addUser_def Let_def split: sum.splits prod.splits)

text \<open>The bucket a user has after an update: the old one when its rate is the user's limit, else one
  built for that limit by an allocation numbered \<open>lo\<close> or later (none when the limit is zero or less).\<close>

definition bucketFor :: "('l, 'd) lib \<Rightarrow> nat \<Rightarrow> (uuid \<rightharpoonup> 'l rate_bucket option) \<Rightarrow> uuid \<Rightarrow> int \<Rightarrow> 'l rate_bucket option \<Rightarrow> bool" where
  "bucketFor L lo old k r b \<longleftrightarrow>
     (case bucketOf old k of
        Some b0 \<Rightarrow> (if rb_rate b0 = r then b = Some b0 else (\<exists>n \<ge> lo. b = fst (newRateBucket L r n)))
      | None \<Rightarrow> (\<exists>n \<ge> lo. b = fst (newRateBucket L r n)))"

lemma newRateBucket_allocs: "k \<le> snd (newRateBucket L r k)"
  by (simp add: newRateBucket_def)

lemma reuseOrNew_bucketFor:
  assumes "reuseOrNew L old k r n = (b, n')" and "lo \<le> n"
  shows "bucketFor L lo old k r b" and "n \<le> n'"
proof -
  have fresh: "newRateBucket L r n = (b, n') \<Longrightarrow> \<exists>n \<ge> lo. b = fst (newRateBucket L r n)"
    using assms(2) by (metis fst_conv)
  show "bucketFor L lo old k r b"
    using assms(1) fresh
    by (auto simp: reuseOrNew_def bucketFor_def bucketOf_def split: option.splits if_splits)
  show "n \<le> n'"
    using assms(1) newRateBucket_allocs [of n L r]
    by (auto simp: reuseOrNew_def split: option.splits if_splits)
qed

definition maps_ok :: "('l, 'd) lib \<Rightarrow> nat \<Rightarrow> (uuid \<rightharpoonup> 'l rate_bucket option) \<Rightarrow> (uuid \<rightharpoonup> 'l rate_bucket option)
    \<Rightarrow> 'l user_maps \<Rightarrow> bool" where
  "maps_ok L lo oldU oldD m \<longleftrightarrow> lo \<le> m_allocs m \<and>
     (\<forall>k. (m_users m k = None \<longrightarrow> m_ul m k = None \<and> m_dl m k = None) \<and>
          (\<forall>u. m_users m k = Some u \<longrightarrow> (\<exists>ub db. m_ul m k = Some ub \<and> m_dl m k = Some db \<and>
             bucketFor L lo oldU k (u_SpeedLimitUpBps u) ub \<and> bucketFor L lo oldD k (u_SpeedLimitDownBps u) db)))"

lemma addUser_maps_ok: "maps_ok L lo oldU oldD m \<Longrightarrow> maps_ok L lo oldU oldD (addUser L oldU oldD u m)"
proof (cases "ParseUUID (u_ID u)")
  case (Inr k)
  assume m: "maps_ok L lo oldU oldD m"
  obtain ub k1 where 1: "reuseOrNew L oldU k (u_SpeedLimitUpBps u) (m_allocs m) = (ub, k1)" by fastforce
  obtain db k2 where 2: "reuseOrNew L oldD k (u_SpeedLimitDownBps u) k1 = (db, k2)" by fastforce
  have lo: "lo \<le> m_allocs m" using m by (simp add: maps_ok_def)
  then have lo1: "lo \<le> k1" using reuseOrNew_bucketFor(2) [OF 1 lo] by simp
  have "addUser L oldU oldD u m = \<lparr>m_users = (m_users m)(k \<mapsto> u), m_ul = (m_ul m)(k \<mapsto> ub),
      m_dl = (m_dl m)(k \<mapsto> db), m_allocs = k2\<rparr>"
    by (simp add: addUser_def Inr 1 2)
  with m lo1 reuseOrNew_bucketFor [OF 1 lo] reuseOrNew_bucketFor [OF 2 lo1] show ?thesis
    by (simp add: maps_ok_def)
qed (simp add: addUser_def)

lemma fold_addUser_maps_ok:
  "maps_ok L lo oldU oldD m \<Longrightarrow> maps_ok L lo oldU oldD (fold (addUser L oldU oldD) us m)"
  by (rule fold_inv) (auto intro: addUser_maps_ok)

lemma start_maps_ok:
  "maps_ok L lo oldU oldD \<lparr>m_users = Map.empty, m_ul = Map.empty, m_dl = Map.empty, m_allocs = lo\<rparr>"
  by (simp add: maps_ok_def)

text \<open>The closing loop in closed form: it visits the old users once each and treats the removed
  ones.\<close>

lemma dropUser_fields:
  "users (dropUser nu u w) = users w"
  "userTraffic (dropUser nu u w) = userTraffic w"
  "sidNode (dropUser nu u w) = sidNode w"
  "vless_cfg (dropUser nu u w) = vless_cfg w"
  "userConns (dropUser nu u w) = (if nu u = None then (userConns w)(u := None) else userConns w)"
  "userQuota (dropUser nu u w) = (if nu u = None then (userQuota w)(u := None) else userQuota w)"
  "userULimiters (dropUser nu u w) = (if nu u = None then (userULimiters w)(u := None) else userULimiters w)"
  "userDLimiters (dropUser nu u w) = (if nu u = None then (userDLimiters w)(u := None) else userDLimiters w)"
  "closed (dropUser nu u w) = (if nu u = None then closed w \<union> connsOf w u else closed w)"
  by (auto simp: dropUser_def Let_def connsOf_def fun_upd_idem split: option.splits)

lemma fold_dropUser_fields:
  "users (fold (dropUser nu) ord w) = users w"
  "userTraffic (fold (dropUser nu) ord w) = userTraffic w"
  "sidNode (fold (dropUser nu) ord w) = sidNode w"
  "vless_cfg (fold (dropUser nu) ord w) = vless_cfg w"
  "userConns (fold (dropUser nu) ord w) = (\<lambda>k. if k \<in> set ord \<and> nu k = None then None else userConns w k)"
  "userQuota (fold (dropUser nu) ord w) = (\<lambda>k. if k \<in> set ord \<and> nu k = None then None else userQuota w k)"
  "userULimiters (fold (dropUser nu) ord w) = (\<lambda>k. if k \<in> set ord \<and> nu k = None then None else userULimiters w k)"
  "userDLimiters (fold (dropUser nu) ord w) = (\<lambda>k. if k \<in> set ord \<and> nu k = None then None else userDLimiters w k)"
  by (induction ord arbitrary: w) (auto simp: dropUser_fields fun_eq_iff)

lemma fold_dropUser_closed:
  "closed (fold (dropUser nu) ord w) = closed w \<union> (\<Union>u \<in> {u \<in> set ord. nu u = None}. connsOf w u)"
proof (induction ord arbitrary: w)
  case (Cons a ord)
  have "connsOf (dropUser nu a w) u \<union> (if nu a = None then connsOf w a else {}) =
      connsOf w u \<union> (if nu a = None then connsOf w a else {})" for u
    by (auto simp: connsOf_def dropUser_fields)
  then have "(\<Union>u \<in> {u \<in> set ord. nu u = None}. connsOf (dropUser nu a w) u) \<union> (if nu a = None then connsOf w a else {}) =
      (\<Union>u \<in> {u \<in> set ord. nu u = None}. connsOf w u) \<union> (if nu a = None then connsOf w a else {})"
    by blast
  with Cons show ?case by (auto simp: dropUser_fields split: if_splits)
qed simp

lemma UpdateUsers_users: "users (UpdateUsers L ord us w) = userMap us"
  by (simp add: UpdateUsers_def Let_def fold_dropUser_fields addUser_users userMap_def)

lemma UpdateUsers_conns:
  assumes "enumerates ord (users w)"
  shows "userConns (UpdateUsers L ord us w) = (\<lambda>k. if users w k \<noteq> None \<and> userMap us k = None then None else userConns w k)"
    and "userQuota (UpdateUsers L ord us w) = (\<lambda>k. if users w k \<noteq> None \<and> userMap us k = None then None else userQuota w k)"
    and "closed (UpdateUsers L ord us w) = closed w \<union> (\<Union>k \<in> {k. users w k \<noteq> None \<and> userMap us k = None}. connsOf w k)"
  using assms
  by (auto simp: UpdateUsers_def Let_def fold_dropUser_fields fold_dropUser_closed addUser_users
      userMap_def [symmetric] fun_eq_iff enumerates_mem connsOf_def split: option.splits)

lemma UpdateUsers_limiters:
  shows "(userMap us u = None \<longrightarrow> userULimiters (UpdateUsers L ord us w) u = None \<and>
                                userDLimiters (UpdateUsers L ord us w) u = None) \<and>
    (\<forall>r. userMap us u = Some r \<longrightarrow> (\<exists>ub db.
       userULimiters (UpdateUsers L ord us w) u = Some ub \<and>
       userDLimiters (UpdateUsers L ord us w) u = Some db \<and>
       bucketFor L (allocs w) (userULimiters w) u (u_SpeedLimitUpBps r) ub \<and>
       bucketFor L (allocs w) (userDLimiters w) u (u_SpeedLimitDownBps r) db))"
proof -
  let ?m = "fold (addUser L (userULimiters w) (userDLimiters w)) us
      \<lparr>m_users = Map.empty, m_ul = Map.empty, m_dl = Map.empty, m_allocs = allocs w\<rparr>"
  have "maps_ok L (allocs w) (userULimiters w) (userDLimiters w) ?m"
    by (rule fold_addUser_maps_ok) (rule start_maps_ok)
  moreover have "m_users ?m = userMap us"
    by (simp add: addUser_users userMap_def)
  ultimately show ?thesis
    by (simp add: maps_ok_def UpdateUsers_def Let_def fold_dropUser_fields)
qed

lemma UpdateUsers_frame [frames, simp]:
  "userTraffic (UpdateUsers L ord us w) = userTraffic w"
  "sidNode (UpdateUsers L ord us w) = sidNode w"
  "vless_cfg (UpdateUsers L ord us w) = vless_cfg w"
  by (simp_all add: UpdateUsers_def Let_def fold_dropUser_fields)

lemma addConn_frame [frames, simp]:
  "users (addConn u c w) = users w"
  "userTraffic (addConn u c w) = userTraffic w"
  "userQuota (addConn u c w) = userQuota w"
  "sidNode (addConn u c w) = sidNode w"
  "vless_cfg (addConn u c w) = vless_cfg w"
  "decryption (addConn u c w) = decryption w"
  "enableMux (addConn u c w) = enableMux w"
  "closed (addConn u c w) = closed w"
  "waits (addConn u c w) = waits w"
  by (simp_all add: addConn_def)

lemma removeConn_frame [frames, simp]:
  "users (removeConn u c w) = users w"
  "userTraffic (removeConn u c w) = userTraffic w"
  "userQuota (removeConn u c w) = userQuota w"
  "sidNode (removeConn u c w) = sidNode w"
  "closed (removeConn u c w) = closed w"
  by (auto simp: removeConn_def Let_def split: option.splits)

lemma connsOf_addConn: "connsOf (addConn u c w) v = (if v = u then insert c (connsOf w u) else connsOf w v)"
  by (simp add: connsOf_def addConn_def)

lemma connsOf_removeConn: "connsOf (removeConn u c w) v = (if v = u then connsOf w u - {c} else connsOf w v)"
  by (auto simp: connsOf_def removeConn_def Let_def split: option.splits)

lemma removeConn_restores:
  assumes "wf_world w" and "c \<notin> connsOf w u" and "userConns w1 = userConns (addConn u c w)"
  shows "userConns (removeConn u c w1) = userConns w"
  using assms
  by (auto simp: wf_world_def addConn_def removeConn_def connsOf_def Let_def fun_eq_iff split: option.splits)

section \<open>Properties\<close>

text \<open>C5: a hot reload of the user set revokes access: the new set is what the manager's list means, every
  user that is no longer in it loses all registered connections (closed, and unregistered) and her quota
  state, every other user keeps hers, and no other connection is closed.\<close>

theorem UpdateUsers_revokes:
  assumes "enumerates ord (users w)"
  shows "users (UpdateUsers L ord us w) = userMap us \<and>
    (\<forall>u. users w u \<noteq> None \<and> userMap us u = None \<longrightarrow>
       connsOf w u \<subseteq> closed (UpdateUsers L ord us w) \<and> userConns (UpdateUsers L ord us w) u = None \<and>
       userQuota (UpdateUsers L ord us w) u = None) \<and>
    (\<forall>u. \<not> (users w u \<noteq> None \<and> userMap us u = None) \<longrightarrow>
       userConns (UpdateUsers L ord us w) u = userConns w u \<and>
       userQuota (UpdateUsers L ord us w) u = userQuota w u) \<and>
    closed (UpdateUsers L ord us w) =
      closed w \<union> (\<Union>u \<in> {u. users w u \<noteq> None \<and> userMap us u = None}. connsOf w u)"
  using UpdateUsers_conns [OF assms, of L us] by (auto simp: UpdateUsers_users)

theorem UpdateUsers_revokes_witness:
  "let r = \<lparr>u_ID = [], u_Email = ''e'', u_Level = 0, u_ExpireAt = 0, u_SpeedLimitUpBps = 0, u_SpeedLimitDownBps = 0\<rparr>;
       w = exNew\<lparr>users := [[1] \<mapsto> r], userConns := [[1] \<mapsto> {7}]\<rparr>
   in closed (UpdateUsers exLib [[1]] [] w) = {7} \<and> userConns (UpdateUsers exLib [[1]] [] w) [1] = None"
proof -
  let ?r = "\<lparr>u_ID = [], u_Email = ''e'', u_Level = 0, u_ExpireAt = 0, u_SpeedLimitUpBps = 0, u_SpeedLimitDownBps = 0\<rparr>"
  let ?w = "exNew\<lparr>users := [[1] \<mapsto> ?r], userConns := [[1] \<mapsto> {7}]\<rparr>"
  have "enumerates [[1]] (users ?w)" by (simp add: enumerates_def)
  from UpdateUsers_revokes [OF this, of exLib "[]"] show ?thesis
    by (auto simp: userMap_def connsOf_def NewServer_def)
qed

text \<open>The speed-limit buckets after a reload: exactly the users of the new set have them; a bucket whose
  rate is the user's limit is kept (the same limiter, with its accrued burst), any other limit gets a bucket
  from a fresh allocation (none for ``unlimited'').\<close>

lemma UpdateUsers_buckets:
  assumes "enumerates ord (users w)"
  shows "(userMap us u = None \<longrightarrow> userULimiters (UpdateUsers L ord us w) u = None \<and>
                                userDLimiters (UpdateUsers L ord us w) u = None) \<and>
    (\<forall>r. userMap us u = Some r \<longrightarrow> (\<exists>ub db.
       userULimiters (UpdateUsers L ord us w) u = Some ub \<and>
       userDLimiters (UpdateUsers L ord us w) u = Some db \<and>
       bucketFor L (allocs w) (userULimiters w) u (u_SpeedLimitUpBps r) ub \<and>
       bucketFor L (allocs w) (userDLimiters w) u (u_SpeedLimitDownBps r) db))"
  by (rule UpdateUsers_limiters)

lemma UpdateUsers_buckets_witness:
  "let r = \<lparr>u_ID = formatUUID (replicate 16 1), u_Email = ''e'', u_Level = 0, u_ExpireAt = 0,
            u_SpeedLimitUpBps = 100, u_SpeedLimitDownBps = 0\<rparr>;
       w = exNew\<lparr>users := [replicate 16 1 \<mapsto> r], userULimiters := [replicate 16 1 \<mapsto> fst (newRateBucket exLib 100 0)]\<rparr>
   in userULimiters (UpdateUsers exLib [replicate 16 1] [r] w) (replicate 16 1) =
        Some (fst (newRateBucket exLib 100 0))"
proof -
  let ?r = "\<lparr>u_ID = formatUUID (replicate 16 1), u_Email = ''e'', u_Level = 0, u_ExpireAt = 0,
            u_SpeedLimitUpBps = 100, u_SpeedLimitDownBps = 0\<rparr>"
  let ?w = "exNew\<lparr>users := [replicate 16 1 \<mapsto> ?r], userULimiters := [replicate 16 1 \<mapsto> fst (newRateBucket exLib 100 0)]\<rparr>"
  have e: "enumerates [replicate 16 1] (users ?w)" by (simp add: enumerates_def)
  have p: "ParseUUID (formatUUID (replicate 16 1)) = Inr (replicate 16 1)"
    by (rule ParseUUID_hexEncode) (simp_all add: removeAllChar_formatUUID)
  then have "userMap [?r] (replicate 16 1) = Some ?r" by (simp add: userMap_def)
  with UpdateUsers_buckets [OF e, of "[?r]" "replicate 16 1" exLib] show ?thesis
    by (auto simp: bucketFor_def bucketOf_def newRateBucket_def)
qed

text \<open>Registering a connection and removing it again leaves the registry exactly as it was, so the
  deferred clean-up of a handler leaks no entry.\<close>

lemma registry_roundtrip:
  assumes "wf_world w" and "c \<notin> connsOf w u"
  shows "userConns (removeConn u c (addConn u c w)) = userConns w"
  using removeConn_restores [OF assms refl] .

lemma registry_roundtrip_witness:
  "userConns (removeConn [1] 7 (addConn [1] 7 exNew)) = Map.empty"
  using registry_roundtrip [of exNew 7 "[1]"] NewServer_wf
  by (simp add: connsOf_def) (simp add: NewServer_def)

end
