(* ===== verification/Vision.thy ===== *)
theory Vision
  imports Users
begin

text \<open>
  \<open>proxy/vless/vision.go\<close>, the preconditions of the Vision flow: which connections can carry it. The relay
  is in \<open>Vision_Relay\<close>; what its transfers do to the server is part of \<open>Handler\<close>.
\<close>

section \<open>Connections\<close>

text \<open>The dynamic type of the accepted connection: a plain one, a TLS one (with the negotiated version),
  or a REALITY one (with the short ID of the client).\<close>

datatype conn_kind = PlainConn | TlsConn int | RealityConn shortid

text \<open>The flow name of \<open>proxy/vless\<close>, as the comments of the handler give it.\<close>

definition XRV :: string where "XRV = ''xtls-rprx-vision''"

section \<open>setupVisionConn\<close>

datatype vision_error = NotTLS13 int | UnsupportedConn | NoInputField | NoRawInputField

text \<open>The two fields \<open>peekBuffers\<close> looks up by reflection in the struct of the connection: whether the linked
  version of the library has them is an argument.\<close>

definition peekBuffers :: "bool \<Rightarrow> bool \<Rightarrow> vision_error option" where
  "peekBuffers hasInput hasRawInput =
     (if \<not> hasInput then Some NoInputField else if \<not> hasRawInput then Some NoRawInputField else None)"

definition setupVisionConn :: "bool \<Rightarrow> bool \<Rightarrow> conn_kind \<Rightarrow> vision_error option" where
  "setupVisionConn hasInput hasRawInput kind =
     (case kind of
        TlsConn v \<Rightarrow> (if v \<noteq> 772 then Some (NotTLS13 v) else peekBuffers hasInput hasRawInput)
      | RealityConn _ \<Rightarrow> peekBuffers hasInput hasRawInput
      | PlainConn \<Rightarrow> Some UnsupportedConn)"

lemma setupVisionConn_ok:
  "setupVisionConn i r kind = None \<longleftrightarrow> i \<and> r \<and> (kind = TlsConn 772 \<or> (\<exists>sid. kind = RealityConn sid))"
  by (auto simp: setupVisionConn_def peekBuffers_def split: conn_kind.splits)

end
