(* ===== verification/Handler.thy ===== *)
theory Handler
  imports Vision
begin

text \<open>
  \<open>proxy/vless/handler.go\<close>, \<open>handleConnection\<close>: the VLESS handshake of one accepted connection, up
  to the hand-over to a relay, and the deferred clean-up. The peer is a script (\<open>k_reads\<close>: what
  each \<open>Read\<close> finds), the outcome of our one \<open>Write\<close> (\<open>k_write\<close>: bytes written, error). Every early
  return of the code is a \<open>reject\<close>; an out-of-range slice or index expression, which panics, is
  \<open>Panicked\<close>. \<open>k_dial\<close> says whether the destination can be dialled, \<open>k_buffers\<close> whether the linked TLS
  library has the two fields the Vision set-up looks up.

  When decryption is configured the wrapped connection keeps the identity of the raw one: there is
  one wrapper per accepted connection and closing either closes the socket.
\<close>

section \<open>Connections and outcomes\<close>

record conn_in =
  k_id :: conn
  k_kind :: conn_kind
  k_reads :: netin
  k_write :: "nat \<times> bool"
  k_dial :: bool
  k_buffers :: "bool \<times> bool"

datatype reject =
    HandshakeFailed | ShortHeader | BadVersion byte | Unauthorized | OverQuota | BadAddons | ShortRest
  | FlowNotAllowed | FlowWithDecryption | MuxDisabled | BadCommand byte | BadAddrType byte
  | VisionUDP | WriteFailed

datatype relay =
    MuxRelay "byte list" bool
  | VisionRelay string "byte list"
  | TcpRelay string "byte list"
  | UdpRelay string "byte list"

datatype outcome = Rejected reject | Panicked | Relayed relay

section \<open>The target address\<close>

datatype target = TPanic | TBadType byte | TAddr string nat nat \<comment> \<open>host, port, position after it\<close>

definition parseTarget :: "byte list \<Rightarrow> nat \<Rightarrow> target" where
  "parseTarget buf cur =
     (case go_slice cur (cur + 2) buf of
        None \<Rightarrow> TPanic
      | Some pb \<Rightarrow>
          (let destPort = 256 * unat (pb ! 0) + unat (pb ! 1); cur = cur + 2 in
           case go_index buf cur of
             None \<Rightarrow> TPanic
           | Some addrType \<Rightarrow>
               (let cur = cur + 1 in
                if addrType = AddrTypeIPv4 then
                  (case go_slice cur (cur + 4) buf of
                     None \<Rightarrow> TPanic | Some a \<Rightarrow> TAddr (ipString a) destPort (cur + 4))
                else if addrType = AddrTypeDomain then
                  (case go_index buf cur of
                     None \<Rightarrow> TPanic
                   | Some l \<Rightarrow>
                       (let cur = cur + 1 in
                        case go_slice cur (cur + unat l) buf of
                          None \<Rightarrow> TPanic
                        | Some a \<Rightarrow> TAddr (map char_of_byte a) destPort (cur + unat l)))
                else if addrType = AddrTypeIPv6 then
                  (case go_slice cur (cur + 16) buf of
                     None \<Rightarrow> TPanic | Some a \<Rightarrow> TAddr (ipString a) destPort (cur + 16))
                else TBadType addrType)))"

section \<open>The handshake\<close>

definition entryNodeOf :: "conn_kind \<Rightarrow> ('l, 'd) world \<Rightarrow> string" where
  "entryNodeOf kind w = (case kind of RealityConn sid \<Rightarrow> nodeForShortID sid w | _ \<Rightarrow> [])"

definition isOpen :: "conn \<Rightarrow> ('l, 'd) world \<Rightarrow> bool" where
  "isOpen c w \<longleftrightarrow> c \<notin> closed w"

text \<open>\<open>c.Write([]byte{Version, 0})\<close> on the counting connection: whether it returned a nil error, and
  the state.\<close>

definition writeResponse :: "('l, 'd) lib \<Rightarrow> conn_in \<Rightarrow> uuid \<Rightarrow> string \<Rightarrow> ('l, 'd) world \<Rightarrow> bool \<times> ('l, 'd) world" where
  "writeResponse L c u node w =
     (if \<not> isOpen (k_id c) w then (False, w)
      else (case k_write c of (n, err) \<Rightarrow> (\<not> err, countingWrite L u node (int n) w)))"

text \<open>From the command byte on: \<open>buf\<close> is the 512-byte buffer, \<open>n\<close> the bytes received, \<open>cur\<close> the
  position of the command.\<close>

definition dispatch :: "('l, 'd) lib \<Rightarrow> conn_in \<Rightarrow> uuid \<Rightarrow> string \<Rightarrow> string \<Rightarrow> byte list \<Rightarrow> nat \<Rightarrow> nat
    \<Rightarrow> ('l, 'd) world \<Rightarrow> outcome \<times> ('l, 'd) world" where
  "dispatch L c u node flow buf n cur w =
     (case go_index buf cur of
        None \<Rightarrow> (Panicked, w)
      | Some cmd \<Rightarrow>
          (let cur = cur + 1; isVision = (flow = XRV) in
           if isVision \<and> v_Flow (vless_cfg w) \<noteq> XRV then (Rejected FlowNotAllowed, w)
           else if isVision \<and> decryption w \<noteq> None then (Rejected FlowWithDecryption, w)
           else if cmd = CmdMux then
             (if \<not> enableMux w then (Rejected MuxDisabled, w)
              else (let (ok, w1) = writeResponse L c u node w in
                    if \<not> ok then (Rejected WriteFailed, w1)
                    else (case go_slice cur n buf of
                            None \<Rightarrow> (Panicked, w1)
                          | Some initial \<Rightarrow> (Relayed (MuxRelay initial isVision), w1))))
           else if \<not> (cmd = CmdTCP \<or> cmd = CmdUDP) then (Rejected (BadCommand cmd), w)
           else
             (case parseTarget buf cur of
                TPanic \<Rightarrow> (Panicked, w)
              | TBadType t \<Rightarrow> (Rejected (BadAddrType t), w)
              | TAddr host destPort cur \<Rightarrow>
                  (let fullAddr = joinHostPort host (itoa (int destPort)) in
                   if isVision \<and> cmd = CmdUDP then (Rejected VisionUDP, w)
                   else
                     (let (ok, w1) = writeResponse L c u node w in
                      if \<not> ok then (Rejected WriteFailed, w1)
                      else
                        (case go_slice cur n buf of
                           None \<Rightarrow> (Panicked, w1)
                         | Some initial \<Rightarrow>
                             (Relayed (if isVision then VisionRelay fullAddr initial
                                       else if cmd = CmdTCP then TcpRelay fullAddr initial
                                       else UdpRelay fullAddr initial), w1)))))))"

text \<open>From the addons on, for a registered connection: \<open>data\<close> are the bytes read so far.\<close>

definition afterAuth :: "('l, 'd) lib \<Rightarrow> conn_in \<Rightarrow> uuid \<Rightarrow> string \<Rightarrow> byte list \<Rightarrow> netin \<Rightarrow> ('l, 'd) world
    \<Rightarrow> outcome \<times> ('l, 'd) world" where
  "afterAuth L c u node data rest w =
     (let buf = copy_arr 512 data; n = length data; addonsLen = unat (buf ! 17) in
      case (if addonsLen = 0 then Some []
            else Option.bind (go_slice 18 (18 + addonsLen) buf) (AddonsFlow L)) of
        None \<Rightarrow> (Rejected BadAddons, w)
      | Some flow \<Rightarrow>
          (let cur = 18 + addonsLen in
           if n < cur + 1 + 2 + 1 then
             (let ((data2, ok), _, w1) =
                    readAtLeast (\<lambda>k. countingRead L u node (int k)) (isOpen (k_id c))
                      (512 - n) (cur + 1 + 2 + 1 - n) rest w
              in if \<not> ok then (Rejected ShortRest, w1)
                 else dispatch L c u node flow (copy_arr 512 (data @ data2)) (n + length data2) cur w1)
           else dispatch L c u node flow buf n cur w))"

text \<open>The whole handshake: the outcome, the user under which the connection was registered (the
  deferred \<open>removeConn\<close> needs her) and the state.\<close>

definition handshake :: "('l, 'd) lib \<Rightarrow> conn_in \<Rightarrow> ('l, 'd) world \<Rightarrow> outcome \<times> uuid option \<times> ('l, 'd) world" where
  "handshake L c w =
     (let entryNode = entryNodeOf (k_kind c) w in
      case (case decryption w of None \<Rightarrow> Some (k_reads c) | Some d \<Rightarrow> SI_Handshake L d (k_reads c)) of
        None \<Rightarrow> (Rejected HandshakeFailed, None, w)
      | Some reads \<Rightarrow>
          (let ((data, ok), rest, w) = readAtLeast (\<lambda>_ w. w) (isOpen (k_id c)) 512 18 reads w in
           if \<not> ok then (Rejected ShortHeader, None, w)
           else if data ! 0 \<noteq> Version then (Rejected (BadVersion (data ! 0)), None, w)
           else
             (let uuid = take 16 (drop 1 data) in
              if users w uuid = None then (Rejected Unauthorized, None, w)
              else if userOverQuota uuid w then (Rejected OverQuota, None, w)
              else
                (let w1 = addTraffic uuid entryNode (int (length data)) 0 (addConn uuid (k_id c) w);
                     (out, w2) = afterAuth L c uuid entryNode data rest w1
                 in (out, Some uuid, w2)))))"

section \<open>The relays' effect on the server, and the clean-up\<close>

text \<open>What the running relay does to the server is a list of transfers: bytes read from the client, written to the
  destination, read from the destination, written (or handed) to the client. Which of them the server sees, and how,
  depends on the path.\<close>

datatype transfer = FromClient nat | ToDest nat | FromDest nat | ToClient nat

text \<open>The plain paths work on the counting connection \<open>c\<close>: the client's side is counted and shaped, the
  destination's side is the bare connection.\<close>

fun plainTransfer :: "('l, 'd) lib \<Rightarrow> uuid \<Rightarrow> string \<Rightarrow> transfer \<Rightarrow> ('l, 'd) world \<Rightarrow> ('l, 'd) world" where
  "plainTransfer L u node (FromClient n) w = countingRead L u node (int n) w"
| "plainTransfer L u node (ToClient n) w = countingWrite L u node (int n) w"
| "plainTransfer L u node (ToDest n) w = w"
| "plainTransfer L u node (FromDest n) w = w"

text \<open>The Vision TCP relay counts the chunks its two readers return and shapes the destination's side.\<close>

fun visionTransfer :: "('l, 'd) lib \<Rightarrow> uuid \<Rightarrow> string \<Rightarrow> transfer \<Rightarrow> ('l, 'd) world \<Rightarrow> ('l, 'd) world" where
  "visionTransfer L u node (FromClient n) w = (if n = 0 then w else addTraffic u node (int n) 0 w)"
| "visionTransfer L u node (ToDest n) w = limitedWrite L u (int n) w"
| "visionTransfer L u node (FromDest n) w =
     (let w1 = limitedRead L u (int n) w in if n = 0 then w1 else addTraffic u node 0 (int n) w1)"
| "visionTransfer L u node (ToClient n) w = w"

text \<open>The Vision Mux stream counts the chunks the worker reads and writes, and shapes nothing.\<close>

fun muxVisionTransfer :: "uuid \<Rightarrow> string \<Rightarrow> transfer \<Rightarrow> ('l, 'd) world \<Rightarrow> ('l, 'd) world" where
  "muxVisionTransfer u node (FromClient n) w = (if n = 0 then w else addTraffic u node (int n) 0 w)"
| "muxVisionTransfer u node (ToClient n) w = (if n = 0 then w else addTraffic u node 0 (int n) w)"
| "muxVisionTransfer u node (ToDest n) w = w"
| "muxVisionTransfer u node (FromDest n) w = w"

definition relayStep :: "('l, 'd) lib \<Rightarrow> uuid \<Rightarrow> string \<Rightarrow> relay \<Rightarrow> transfer \<Rightarrow> ('l, 'd) world \<Rightarrow> ('l, 'd) world" where
  "relayStep L u node r =
     (case r of
        VisionRelay _ _ \<Rightarrow> visionTransfer L u node
      | MuxRelay _ isVision \<Rightarrow> (if isVision then muxVisionTransfer u node else plainTransfer L u node)
      | TcpRelay _ _ \<Rightarrow> plainTransfer L u node
      | UdpRelay _ _ \<Rightarrow> plainTransfer L u node)"

lemma relayStep_simps [simp]:
  "relayStep L u node (VisionRelay a i) = visionTransfer L u node"
  "relayStep L u node (MuxRelay i True) = muxVisionTransfer u node"
  "relayStep L u node (MuxRelay i False) = plainTransfer L u node"
  "relayStep L u node (TcpRelay a i) = plainTransfer L u node"
  "relayStep L u node (UdpRelay a i) = plainTransfer L u node"
  by (simp_all add: relayStep_def)

definition relayRun :: "('l, 'd) lib \<Rightarrow> uuid \<Rightarrow> string \<Rightarrow> relay \<Rightarrow> transfer list \<Rightarrow> ('l, 'd) world \<Rightarrow> ('l, 'd) world" where
  "relayRun L u node r ts w = fold (relayStep L u node r) ts w"

text \<open>The set-up of the relay: Vision needs a connection that can carry it, a relay to one target needs the
  destination dialled. When it fails the handler returns at once.\<close>

definition relayReady :: "conn_in \<Rightarrow> relay \<Rightarrow> bool" where
  "relayReady c r =
     (let vision = (setupVisionConn (fst (k_buffers c)) (snd (k_buffers c)) (k_kind c) = None)
      in case r of
           MuxRelay _ isVision \<Rightarrow> isVision \<longrightarrow> vision
         | VisionRelay _ _ \<Rightarrow> vision \<and> k_dial c
         | TcpRelay _ _ \<Rightarrow> k_dial c
         | UdpRelay _ _ \<Rightarrow> k_dial c)"

text \<open>The deferred calls, in the reverse order of the \<open>defer\<close> statements: \<open>removeConn\<close> when the connection was
  registered, then \<open>conn.Close()\<close>.\<close>

definition deferredClose :: "conn \<Rightarrow> ('l, 'd) world \<Rightarrow> ('l, 'd) world" where
  "deferredClose c w = w\<lparr>closed := insert c (closed w)\<rparr>"

definition deferredRemove :: "uuid option \<Rightarrow> conn \<Rightarrow> ('l, 'd) world \<Rightarrow> ('l, 'd) world" where
  "deferredRemove reg c w = (case reg of None \<Rightarrow> w | Some u \<Rightarrow> removeConn u c w)"

definition handlerExit :: "uuid option \<Rightarrow> conn \<Rightarrow> ('l, 'd) world \<Rightarrow> ('l, 'd) world" where
  "handlerExit reg c w = deferredClose c (deferredRemove reg c w)"

lemma handlerExit_eq:
  "handlerExit reg c w = (let w1 = (case reg of None \<Rightarrow> w | Some u \<Rightarrow> removeConn u c w) in w1\<lparr>closed := insert c (closed w1)\<rparr>)"
  by (simp add: handlerExit_def deferredClose_def deferredRemove_def Let_def)

definition handleConnection :: "('l, 'd) lib \<Rightarrow> conn_in \<Rightarrow> transfer list \<Rightarrow> ('l, 'd) world
    \<Rightarrow> outcome \<times> ('l, 'd) world" where
  "handleConnection L c ts w =
     (let (out, reg, w1) = handshake L c w;
          w2 = (case (out, reg) of
                  (Relayed r, Some u) \<Rightarrow> (if relayReady c r then relayRun L u (entryNodeOf (k_kind c) w) r ts w1 else w1)
                | _ \<Rightarrow> w1)
      in (out, handlerExit reg (k_id c) w2))"

end
