(* ===== verification/Handshake.thy ===== *)
theory Handshake
  imports Handler
begin

text \<open>
  What the VLESS handshake of \<open>handleConnection\<close> guarantees. The client's side of the protocol is an
  encoder written from the wire layout in the comment of \<open>handler.go\<close>; the handshake inverts it when the
  whole header arrives with the first read, refuses everything it must refuse, and counts what it reads and
  writes. When the header arrives in two pieces the handler can panic, which is shown too.
\<close>

lemma readLoop_enough: "need \<le> length acc \<Longrightarrow> readLoop onRead alive cap need evs acc w = ((acc, True), evs, w)"
  by (cases evs) auto

lemma readAtLeast_first:
  assumes "need \<le> length d" "length d \<le> cap" "0 < need" "alive w"
  shows "readAtLeast onRead alive cap need ((d, e) # evs) w = ((d, True), evs, onRead (length d) w)"
proof -
  have "d \<noteq> []" using assms by auto
  with assms show ?thesis by (simp add: readAtLeast_def readLoop_enough Let_def)
qed

section \<open>What a client sends\<close>

datatype dest = V4 "byte list" | Dom string | V6 "byte list"

fun encodeAddr :: "dest \<Rightarrow> byte list" where
  "encodeAddr (V4 a) = AddrTypeIPv4 # a"
| "encodeAddr (Dom s) = AddrTypeDomain # of_nat (length s) # map byte_of s"
| "encodeAddr (V6 a) = AddrTypeIPv6 # a"

fun dest_ok :: "dest \<Rightarrow> bool" where
  "dest_ok (V4 a) = (length a = 4)"
| "dest_ok (Dom s) = (length s < 256)"
| "dest_ok (V6 a) = (length a = 16)"

fun hostOf :: "dest \<Rightarrow> string" where
  "hostOf (V4 a) = ipString a"
| "hostOf (Dom s) = s"
| "hostOf (V6 a) = ipString a"

definition encodePort :: "nat \<Rightarrow> byte list" where
  "encodePort p = [of_nat (p div 256), of_nat (p mod 256)]"

definition encodeHead :: "uuid \<Rightarrow> byte list \<Rightarrow> byte \<Rightarrow> byte list" where
  "encodeHead u addons cmd = Version # u @ of_nat (length addons) # addons @ [cmd]"

definition encodeHeader :: "uuid \<Rightarrow> byte list \<Rightarrow> byte \<Rightarrow> nat \<Rightarrow> dest \<Rightarrow> byte list" where
  "encodeHeader u addons cmd p d = encodeHead u addons cmd @ encodePort p @ encodeAddr d"

lemma port_bytes: "p < 65536 \<Longrightarrow> 256 * unat (of_nat (p div 256) :: byte) + unat (of_nat (p mod 256) :: byte) = p"
  by (simp add: unat_of_nat)

lemma unat_len: "n < 256 \<Longrightarrow> unat (of_nat n :: byte) = n"
  by (simp add: unat_of_nat)

lemma addrTypes [simp]: "AddrTypeDomain \<noteq> AddrTypeIPv4" "AddrTypeIPv6 \<noteq> AddrTypeIPv4" "AddrTypeIPv6 \<noteq> AddrTypeDomain"
  by (simp_all add: protocol_consts)

lemma go_slice_at: "lo = length xs \<Longrightarrow> hi = lo + length ys \<Longrightarrow> go_slice lo hi (xs @ ys @ zs) = Some ys"
  by (simp add: go_slice_def)

lemma parseTarget_encode:
  assumes "p < 65536" "dest_ok d"
  shows "parseTarget (pre @ encodePort p @ encodeAddr d @ post) (length pre) =
     TAddr (hostOf d) p (length pre + 2 + length (encodeAddr d))"
proof -
  have pb: "go_slice (length pre) (length pre + 2) (pre @ encodePort p @ encodeAddr d @ post) = Some (encodePort p)"
    by (rule go_slice_at) (simp_all add: encodePort_def)
  show ?thesis
  proof (cases d)
    case (V4 a)
    with assms pb go_slice_at [of "Suc (Suc (Suc (length pre)))" "pre @ encodePort p @ [AddrTypeIPv4]" "7 + length pre" a post]
    show ?thesis
      by (simp add: parseTarget_def encodePort_def port_bytes go_index_def nth_append)
  next
    case (Dom s)
    with assms pb go_slice_at [of "Suc (Suc (Suc (Suc (length pre))))" "pre @ encodePort p @ [AddrTypeDomain, of_nat (length s)]" "Suc (Suc (Suc (Suc (length pre + length s))))" "map byte_of s" post]
    show ?thesis
      by (simp add: parseTarget_def encodePort_def port_bytes go_index_def nth_append unat_len)
        (simp add: comp_def)
  next
    case (V6 a)
    with assms pb go_slice_at [of "Suc (Suc (Suc (length pre)))" "pre @ encodePort p @ [AddrTypeIPv6]" "19 + length pre" a post]
    show ?thesis
      by (simp add: parseTarget_def encodePort_def port_bytes go_index_def nth_append)
  qed
qed

lemma length_encodeHead [simp]: "length u = 16 \<Longrightarrow> length (encodeHead u ad cmd) = 19 + length ad"
  by (simp add: encodeHead_def)

definition relayFor :: "string \<Rightarrow> byte \<Rightarrow> string \<Rightarrow> byte list \<Rightarrow> relay" where
  "relayFor flow cmd addr initial =
     (if flow = XRV then VisionRelay addr initial
      else if cmd = CmdTCP then TcpRelay addr initial else UdpRelay addr initial)"

text \<open>When a flow is acceptable: Vision only where the configuration allows it, without decryption.\<close>

definition flow_ok :: "('l, 'd) world \<Rightarrow> string \<Rightarrow> bool" where
  "flow_ok w flow \<longleftrightarrow> (flow = XRV \<longrightarrow> v_Flow (vless_cfg w) = XRV \<and> decryption w = None)"

lemma dispatch_encode:
  assumes hdr: "length u = 16" "p < 65536" "dest_ok d"
    and cmd: "cmd = CmdTCP \<or> cmd = CmdUDP \<and> flow \<noteq> XRV"
    and flow: "flow_ok w flow"
    and wr: "isOpen (k_id c) w" "k_write c = (m, False)"
    and n: "n = length (encodeHeader u ad cmd p d @ payload)"
  shows "dispatch L c v node flow (encodeHeader u ad cmd p d @ payload @ pad) n (18 + length ad) w =
     (Relayed (relayFor flow cmd (joinHostPort (hostOf d) (itoa (int p))) payload),
      countingWrite L v node (int m) w)"
proof -
  let ?buf = "encodeHeader u ad cmd p d @ payload @ pad"
  have i: "go_index ?buf (18 + length ad) = Some cmd"
    using hdr(1) by (simp add: encodeHeader_def encodeHead_def go_index_def nth_append)
  have t: "parseTarget ?buf (19 + length ad) = TAddr (hostOf d) p (length (encodeHeader u ad cmd p d))"
    using parseTarget_encode [OF hdr(2,3), of "encodeHead u ad cmd" "payload @ pad"] hdr(1)
    by (simp add: encodeHeader_def encodePort_def)
  have s: "go_slice (length (encodeHeader u ad cmd p d)) n ?buf = Some payload"
    unfolding n by (rule go_slice_at) simp_all
  have c: "cmd \<noteq> CmdMux" using cmd by (auto simp: protocol_consts)
  have wr': "writeResponse L c v node w = (True, countingWrite L v node (int m) w)"
    using wr by (simp add: writeResponse_def)
  have nv: "\<not> (flow = XRV \<and> cmd = CmdUDP)" "\<not> (flow = XRV \<and> v_Flow (vless_cfg w) \<noteq> XRV)" "\<not> (flow = XRV \<and> decryption w \<noteq> None)"
    "\<not> \<not> (cmd = CmdTCP \<or> cmd = CmdUDP)"
    using cmd flow by (auto simp: flow_ok_def protocol_consts)
  have one: "18 + length ad + 1 = 19 + length ad" by simp
  show ?thesis
    unfolding dispatch_def i option.case Let_def one t target.case wr' prod.case s
      nv [THEN if_not_P] c [THEN if_not_P]
    by (simp add: relayFor_def)
qed

lemma afterAuth_encode:
  assumes hdr: "length u = 16" "p < 65536" "dest_ok d" "length ad < 256"
    and size: "length (encodeHeader u ad cmd p d @ payload) \<le> 512"
    and ad: "(if ad = [] then Some [] else AddonsFlow L ad) = Some flow"
    and cmd: "cmd = CmdTCP \<or> cmd = CmdUDP \<and> flow \<noteq> XRV"
    and flow: "flow_ok w flow"
    and wr: "isOpen (k_id c) w" "k_write c = (m, False)"
  shows "afterAuth L c v node (encodeHeader u ad cmd p d @ payload) rest w =
     (Relayed (relayFor flow cmd (joinHostPort (hostOf d) (itoa (int p))) payload),
      countingWrite L v node (int m) w)"
proof -
  let ?data = "encodeHeader u ad cmd p d @ payload"
  obtain pad where buf: "copy_arr 512 ?data = encodeHeader u ad cmd p d @ payload @ pad"
    using size by (simp add: copy_arr_def)
  have a17: "(encodeHeader u ad cmd p d @ payload @ pad) ! 17 = of_nat (length ad)"
    using hdr(1) by (simp add: encodeHeader_def encodeHead_def nth_append)
  have sl: "go_slice 18 (18 + length ad) (encodeHeader u ad cmd p d @ payload @ pad) = Some ad"
    using go_slice_at [of 18 "Version # u @ [of_nat (length ad)]" "18 + length ad" ad] hdr(1)
    by (simp add: encodeHeader_def encodeHead_def)
  have len: "\<not> length ?data < 18 + length ad + 1 + 2 + 1"
    using hdr(1) by (cases d) (simp_all add: encodeHeader_def encodePort_def)
  let ?buf = "encodeHeader u ad cmd p d @ payload @ pad"
  have ul: "unat (?buf ! 17) = length ad" using hdr(4) by (simp only: a17 unat_len)
  have fl: "(if unat (?buf ! 17) = 0 then Some [] else Option.bind (go_slice 18 (18 + unat (?buf ! 17)) ?buf) (AddonsFlow L)) = Some flow"
    unfolding ul using ad sl by (cases ad) simp_all
  show ?thesis
    unfolding afterAuth_def Let_def buf fl option.case
    unfolding ul if_not_P [OF len]
    by (rule dispatch_encode [OF hdr(1-3) cmd flow wr refl])
qed

section \<open>The whole handshake\<close>

definition handshakeReads :: "('l, 'd) lib \<Rightarrow> conn_in \<Rightarrow> ('l, 'd) world \<Rightarrow> netin option" where
  "handshakeReads L c w =
     (case decryption w of None \<Rightarrow> Some (k_reads c) | Some d \<Rightarrow> SI_Handshake L d (k_reads c))"

text \<open>The states a registered connection goes through: registration counts the bytes of the first read.\<close>

definition registered :: "uuid \<Rightarrow> conn_in \<Rightarrow> nat \<Rightarrow> ('l, 'd) world \<Rightarrow> ('l, 'd) world" where
  "registered u c n w = addTraffic u (entryNodeOf (k_kind c) w) (int n) 0 (addConn u (k_id c) w)"

text \<open>The handshake up to registration, on the data of the first read.\<close>

lemma handshake_first:
  assumes "handshakeReads L c w = Some ((data, e) # rest)" "18 \<le> length data" "length data \<le> 512"
    and "isOpen (k_id c) w"
  shows "handshake L c w =
     (let u = take 16 (drop 1 data)
      in if data ! 0 \<noteq> Version then (Rejected (BadVersion (data ! 0)), None, w)
         else if users w u = None then (Rejected Unauthorized, None, w)
         else if userOverQuota u w then (Rejected OverQuota, None, w)
         else (let (out, w2) = afterAuth L c u (entryNodeOf (k_kind c) w) data rest (registered u c (length data) w)
               in (out, Some u, w2)))"
proof -
  have ra: "readAtLeast (\<lambda>_ w. w) (isOpen (k_id c)) 512 18 ((data, e) # rest) w = ((data, True), rest, w)"
    using assms by (intro readAtLeast_first) auto
  show ?thesis
    using assms(1) ra by (simp add: handshake_def handshakeReads_def registered_def Let_def)
qed

lemma head_fields:
  "length u = 16 \<Longrightarrow> (encodeHeader u ad cmd p d @ payload) ! 0 = Version"
  "length u = 16 \<Longrightarrow> take 16 (drop 1 (encodeHeader u ad cmd p d @ payload)) = u"
  "length u = 16 \<Longrightarrow> 18 \<le> length (encodeHeader u ad cmd p d)"
  by (simp_all add: encodeHeader_def encodeHead_def)

lemma registered_frame [frames, simp]:
  "users (registered u c n w) = users w" "vless_cfg (registered u c n w) = vless_cfg w"
  "decryption (registered u c n w) = decryption w" "enableMux (registered u c n w) = enableMux w"
  by (simp_all add: registered_def)

lemma handshake_encoded:
  assumes hdr: "length u = 16" "p < 65536" "dest_ok d" "length ad < 256"
    and size: "length (encodeHeader u ad cmd p d @ payload) \<le> 512"
    and reads: "handshakeReads L c w = Some ((encodeHeader u ad cmd p d @ payload, e) # rest)"
    and auth: "users w u \<noteq> None" "\<not> userOverQuota u w"
    and ad: "(if ad = [] then Some [] else AddonsFlow L ad) = Some flow"
    and cmd: "cmd = CmdTCP \<or> cmd = CmdUDP \<and> flow \<noteq> XRV"
    and flow: "flow_ok w flow"
    and wr: "isOpen (k_id c) w" "k_write c = (2, False)"
    and quota: "isOpen (k_id c) (registered u c (length (encodeHeader u ad cmd p d @ payload)) w)"
  shows "handshake L c w =
     (Relayed (relayFor flow cmd (joinHostPort (hostOf d) (itoa (int p))) payload), Some u,
      countingWrite L u (entryNodeOf (k_kind c) w) 2
        (registered u c (length (encodeHeader u ad cmd p d @ payload)) w))"
proof -
  let ?data = "encodeHeader u ad cmd p d @ payload"
  let ?w = "registered u c (length ?data) w"
  have fo: "flow_ok ?w flow" using flow by (simp add: flow_ok_def)
  have "afterAuth L c u (entryNodeOf (k_kind c) w) ?data rest ?w =
      (Relayed (relayFor flow cmd (joinHostPort (hostOf d) (itoa (int p))) payload),
       countingWrite L u (entryNodeOf (k_kind c) w) (int 2) ?w)"
    by (rule afterAuth_encode [OF hdr size ad cmd fo quota wr(2)])
  moreover have "18 \<le> length ?data" using head_fields(3) [OF hdr(1)] by (simp add: trans_le_add1)
  ultimately show ?thesis
    using handshake_first [OF reads _ size wr(1)] auth head_fields(1,2) [OF hdr(1)]
    by (simp add: Let_def)
qed

definition exUser :: user where
  "exUser = \<lparr>u_ID = [], u_Email = ''e'', u_Level = 0, u_ExpireAt = 0, u_SpeedLimitUpBps = 0, u_SpeedLimitDownBps = 0\<rparr>"

abbreviation exUUID :: uuid where "exUUID \<equiv> replicate 16 171"

definition exConn :: "netin \<Rightarrow> conn_in" where
  "exConn evs = \<lparr>k_id = 7, k_kind = PlainConn, k_reads = evs, k_write = (2, False), k_dial = True, k_buffers = (True, True)\<rparr>"

definition exServer :: ex_world where
  "exServer = exNew\<lparr>users := [exUUID \<mapsto> exUser]\<rparr>"

lemma exServer_simps [simp]:
  "users exServer exUUID = Some exUser" "decryption exServer = None" "closed exServer = {}"
  "userQuota exServer u = None" "vless_cfg exServer = zeroVLESS" "enableMux exServer"
  by (simp_all add: exServer_def NewServer_def)

lemma exServer_open [simp]: "isOpen c exServer" "isOpen c (registered u k n exServer)" "\<not> userOverQuota u exServer"
  "handshakeReads L (exConn evs) exServer = Some evs"
  by (simp_all add: isOpen_def registered_def addTraffic_quota accrueQuotaLocked_def userOverQuota_def
      userOverQuotaLocked_def handshakeReads_def exConn_def)

lemma ex_digits: "natDigits 443 = ''443''"
  by (simp add: natDigits.simps) code_simp

lemma ex_relay:
  "relayFor [] CmdTCP (joinHostPort (hostOf (Dom ''a.io'')) (itoa (int 443))) payload = TcpRelay ''a.io:443'' payload"
  by (simp add: relayFor_def XRV_def joinHostPort_def itoa_def ex_digits)

lemma ex_sizes [simp]:
  "length (encodeHeader exUUID [] CmdTCP 443 (Dom ''a.io'')) = 27" "k_write (exConn evs) = (2, False)"
  "flow_ok exServer []"
  by (simp_all add: encodeHeader_def encodeHead_def encodePort_def exConn_def flow_ok_def XRV_def)

lemma exServer_accepts:
  assumes "length payload \<le> 400"
  shows "\<exists>w'. handshake exLib (exConn [(encodeHeader exUUID [] CmdTCP 443 (Dom ''a.io'') @ payload, e)]) exServer =
    (Relayed (TcpRelay ''a.io:443'' payload), Some exUUID, w')"
proof -
  have "\<exists>w'. handshake exLib (exConn [(encodeHeader exUUID [] CmdTCP 443 (Dom ''a.io'') @ payload, e)]) exServer =
    (Relayed (relayFor [] CmdTCP (joinHostPort (hostOf (Dom ''a.io'')) (itoa (int 443))) payload), Some exUUID, w')"
    using assms
    by (subst handshake_encoded [where u = exUUID and ad = "[]" and cmd = CmdTCP and p = 443
        and d = "Dom ''a.io''" and payload = payload and flow = "[]" and e = e and rest = "[]"])
      (simp_all add: ex_sizes)
  then show ?thesis by (simp only: ex_relay)
qed

text \<open>C1: an authorised user's request, encoded as the protocol says and received with one read, is answered
  and relayed to exactly the host, port and payload it names, on the relay of its command and flow. The state
  records the connection under the user and counts every byte of the request and of the response.\<close>

theorem handshake_accepts_encoded:
  assumes hdr: "length u = 16" "p < 65536" "dest_ok d" "length ad < 256"
    and size: "length (encodeHeader u ad cmd p d @ payload) \<le> 512"
    and reads: "handshakeReads L c w = Some ((encodeHeader u ad cmd p d @ payload, e) # rest)"
    and auth: "users w u \<noteq> None" "\<not> userOverQuota u w"
    and ad: "(if ad = [] then Some [] else AddonsFlow L ad) = Some flow"
    and cmd: "cmd = CmdTCP \<or> cmd = CmdUDP \<and> flow \<noteq> XRV"
    and flow: "flow_ok w flow"
    and wr: "isOpen (k_id c) w" "k_write c = (2, False)"
    and quota: "isOpen (k_id c) (registered u c (length (encodeHeader u ad cmd p d @ payload)) w)"
  shows "handshake L c w =
     (Relayed (relayFor flow cmd (joinHostPort (hostOf d) (itoa (int p))) payload), Some u,
      countingWrite L u (entryNodeOf (k_kind c) w) 2
        (registered u c (length (encodeHeader u ad cmd p d @ payload)) w))"
  by (rule handshake_encoded [OF assms])

theorem handshake_accepts_encoded_witness:
  "fst (handshake exLib (exConn [(encodeHeader exUUID [] CmdTCP 443 (Dom ''a.io'') @ [1, 2], False)]) exServer) =
     Relayed (TcpRelay ''a.io:443'' [1, 2])"
proof -
  have "fst (handshake exLib (exConn [(encodeHeader exUUID [] CmdTCP 443 (Dom ''a.io'') @ [1, 2], False)]) exServer) =
      Relayed (relayFor [] CmdTCP (joinHostPort (hostOf (Dom ''a.io'')) (itoa (int 443))) [1, 2])"
    by (subst handshake_accepts_encoded [where u = exUUID and ad = "[]" and cmd = CmdTCP and p = 443
        and d = "Dom ''a.io''" and payload = "[1, 2]" and flow = "[]" and e = False and rest = "[]"])
      (simp_all add: ex_sizes)
  then show ?thesis by (simp only: ex_relay)
qed

section \<open>What the handshake does to the server\<close>

lemma countingRead_frame [frames, simp]:
  "users (countingRead L u node n w) = users w"
  "userConns (countingRead L u node n w) = userConns w"
  "vless_cfg (countingRead L u node n w) = vless_cfg w"
  "decryption (countingRead L u node n w) = decryption w"
  "enableMux (countingRead L u node n w) = enableMux w"
  by (simp_all add: countingRead_def)

lemma countingWrite_frame [frames, simp]:
  "users (countingWrite L u node n w) = users w"
  "userConns (countingWrite L u node n w) = userConns w"
  "vless_cfg (countingWrite L u node n w) = vless_cfg w"
  "decryption (countingWrite L u node n w) = decryption w"
  "enableMux (countingWrite L u node n w) = enableMux w"
  by (simp_all add: countingWrite_def)

lemma counter_cong: "userTraffic w = userTraffic w' \<Longrightarrow> counter w = counter w'"
  by (simp add: counter_def fun_eq_iff)

lemma counter_applyLimits [simp]: "counter (applyLimits L u a b w) = counter w"
  by (rule counter_cong) simp

lemma counter_addConn [simp]: "counter (addConn u c w) = counter w"
  by (rule counter_cong) simp

lemma countingRead_counter: "0 < n \<Longrightarrow> counter (countingRead L u node n w) k =
   (if k = (u, node) then (wrap64 (fst (counter w k) + n), wrap64 (snd (counter w k) + 0)) else counter w k)"
  by (simp add: countingRead_def addTraffic_counter)

lemma countingWrite_counter: "0 \<le> n \<Longrightarrow> is_i64 (fst (counter w k)) \<Longrightarrow> is_i64 (snd (counter w k)) \<Longrightarrow> counter (countingWrite L u node n w) k =
   (if k = (u, node) then (fst (counter w k), wrap64 (snd (counter w k) + n)) else counter w k)"
  by (auto simp: countingWrite_def addTraffic_counter wrap64_id)

text \<open>The write of the response, and nothing else, is what the dispatch does to the state.\<close>

lemma dispatch_state:
  assumes "dispatch L c u node flow buf n cur w = (out, w')"
  shows "w' = w \<or> isOpen (k_id c) w \<and> w' = countingWrite L u node (int (fst (k_write c))) w"
  using assms
  by (auto simp: dispatch_def writeResponse_def Let_def split: option.splits if_splits target.splits prod.splits)

lemma dispatch_relayed:
  assumes "dispatch L c u node flow buf n cur w = (Relayed r, w')"
  shows "(case r of
      MuxRelay i v \<Rightarrow> enableMux w \<and> (v \<longrightarrow> v_Flow (vless_cfg w) = XRV \<and> decryption w = None)
    | VisionRelay a i \<Rightarrow> v_Flow (vless_cfg w) = XRV \<and> decryption w = None
    | _ \<Rightarrow> True)"
  using assms
  by (auto simp: dispatch_def writeResponse_def Let_def split: option.splits if_splits target.splits prod.splits)

text \<open>A run of counted reads.\<close>

abbreviation readAll :: "('l, 'd) lib \<Rightarrow> uuid \<Rightarrow> string \<Rightarrow> nat list \<Rightarrow> ('l, 'd) world \<Rightarrow> ('l, 'd) world" where
  "readAll L u node ns w \<equiv> fold (\<lambda>k. countingRead L u node (int k)) ns w"

lemma readAll_frame [frames, simp]:
  "users (readAll L u node ns w) = users w"
  "userConns (readAll L u node ns w) = userConns w"
  "vless_cfg (readAll L u node ns w) = vless_cfg w"
  "decryption (readAll L u node ns w) = decryption w"
  "enableMux (readAll L u node ns w) = enableMux w"
  by (induction ns arbitrary: w) simp_all

lemma readAll_counter:
  "is_i64 (fst (counter w k)) \<Longrightarrow> is_i64 (snd (counter w k)) \<Longrightarrow> \<forall>n \<in> set ns. 0 < n \<Longrightarrow>
   counter (readAll L u node ns w) k =
     (if k = (u, node) then (wrap64 (fst (counter w k) + int (sum_list ns)), snd (counter w k)) else counter w k)"
proof (induction ns arbitrary: w)
  case Nil
  then show ?case by (cases "counter w k") (auto simp: wrap64_id)
next
  case (Cons n ns)
  have "is_i64 (fst (counter (countingRead L u node (int n) w) k))"
    "is_i64 (snd (counter (countingRead L u node (int n) w) k))"
    using Cons.prems by (simp_all add: countingRead_counter)
  with Cons show ?case by (auto simp: countingRead_counter wrap64_id add.assoc)
qed

text \<open>After registration: at most 494 more bytes are read (and counted), then at most one response is
  written (and counted).\<close>

lemma afterAuth_state:
  assumes "afterAuth L c u node data rest w = (out, w')" "length data \<le> 512"
  shows "\<exists>ns. (\<forall>n \<in> set ns. 0 < n) \<and> length data + sum_list ns \<le> 512 \<and>
      (w' = readAll L u node ns w \<or> w' = countingWrite L u node (int (fst (k_write c))) (readAll L u node ns w))"
proof -
  have none: "(\<forall>n \<in> set []. 0 < n) \<and> length data + sum_list [] \<le> 512 \<and> readAll L u node [] w = w" for w
    using assms(2) by simp
  have disp: "dispatch L c u node flow buf n cur w1 = (out, w') \<Longrightarrow>
      w' = w1 \<or> w' = countingWrite L u node (int (fst (k_write c))) w1" for flow buf n cur w1
    using dispatch_state by blast
  let ?a = "unat (copy_arr 512 data ! 17)"
  let ?fl = "if ?a = 0 then Some [] else Option.bind (go_slice 18 (18 + ?a) (copy_arr 512 data)) (AddonsFlow L)"
  show ?thesis
  proof (cases ?fl)
    case None
    with assms none show ?thesis by (auto simp: afterAuth_def Let_def intro!: exI [of _ "[]"])
  next
    case (Some flow)
    show ?thesis
    proof (cases "length data < 18 + ?a + 1 + 2 + 1")
      case False
      with assms Some disp none show ?thesis by (fastforce simp: afterAuth_def Let_def intro!: exI [of _ "[]"])
    next
      case True
      obtain d2 ok r2 w1 where rd: "readAtLeast (\<lambda>k. countingRead L u node (int k)) (isOpen (k_id c))
          (512 - length data) (18 + ?a + 1 + 2 + 1 - length data) rest w = ((d2, ok), r2, w1)"
        by (metis prod.exhaust)
      have a: "18 + ?a + 1 + 2 + 1 \<le> 512" using unat_byte_less [of "copy_arr 512 data ! 17"] by linarith
      have loop: "readLoop (\<lambda>k. countingRead L u node (int k)) (isOpen (k_id c))
          (512 - length data) (18 + ?a + 1 + 2 + 1 - length data) rest [] w = ((d2, ok), r2, w1)"
        using rd a by (simp add: readAtLeast_def split: if_splits)
      have cap: "18 + ?a + 1 + 2 + 1 - length data \<le> 512 - length data" using a by simp
      from readLoop_accounts [OF loop cap] obtain ns where ns: "w1 = readAll L u node ns w"
          "sum_list ns = length d2" "\<forall>n \<in> set ns. 0 < n"
        by auto
      have "length d2 \<le> 512 - length data" using readLoop_ok [OF loop] a by auto
      with ns assms(2) have b: "length data + sum_list ns \<le> 512" by simp
      have "w' = w1 \<or> w' = countingWrite L u node (int (fst (k_write c))) w1"
        using assms(1) Some True rd disp by (simp add: afterAuth_def Let_def split: if_splits)
      with ns b show ?thesis by auto
    qed
  qed
qed

lemma afterAuth_relayed:
  assumes "afterAuth L c u node data rest w = (Relayed r, w')"
  shows "(case r of
      MuxRelay i v \<Rightarrow> enableMux w \<and> (v \<longrightarrow> v_Flow (vless_cfg w) = XRV \<and> decryption w = None)
    | VisionRelay a i \<Rightarrow> v_Flow (vless_cfg w) = XRV \<and> decryption w = None
    | _ \<Rightarrow> True)"
proof -
  let ?a = "unat (copy_arr 512 data ! 17)"
  obtain flow buf n cur w1 where d: "dispatch L c u node flow buf n cur w1 = (Relayed r, w')"
      and w1: "vless_cfg w1 = vless_cfg w" "decryption w1 = decryption w" "enableMux w1 = enableMux w"
  proof (cases "if ?a = 0 then Some [] else Option.bind (go_slice 18 (18 + ?a) (copy_arr 512 data)) (AddonsFlow L)")
    case None
    with assms show thesis by (simp add: afterAuth_def Let_def)
  next
    case (Some flow)
    note fl = this
    show thesis
    proof (cases "length data < 18 + ?a + 1 + 2 + 1")
      case False
      with assms fl have "dispatch L c u node flow (copy_arr 512 data) (length data) (18 + ?a) w = (Relayed r, w')"
        by (simp add: afterAuth_def Let_def)
      then show thesis by (rule that) simp_all
    next
      case True
      obtain d2 ok r2 w1 where rd: "readAtLeast (\<lambda>k. countingRead L u node (int k)) (isOpen (k_id c))
          (512 - length data) (18 + ?a + 1 + 2 + 1 - length data) rest w = ((d2, ok), r2, w1)"
        by (metis prod.exhaust)
      have a: "18 + ?a + 1 + 2 + 1 - length data \<le> 512 - length data"
        using unat_byte_less [of "copy_arr 512 data ! 17"] by linarith
      then have "readLoop (\<lambda>k. countingRead L u node (int k)) (isOpen (k_id c))
          (512 - length data) (18 + ?a + 1 + 2 + 1 - length data) rest [] w = ((d2, ok), r2, w1)"
        using rd by (simp add: readAtLeast_def)
      from readLoop_accounts [OF this a] obtain ns where w1: "w1 = readAll L u node ns w" by auto
      have "dispatch L c u node flow (copy_arr 512 (data @ d2)) (length data + length d2) (18 + ?a) w1 = (Relayed r, w')"
        using assms fl True rd by (simp add: afterAuth_def Let_def split: if_splits)
      then show thesis by (rule that) (simp_all add: w1)
    qed
  qed
  from dispatch_relayed [OF d] show ?thesis unfolding w1 .
qed

text \<open>The three ways a handshake ends: refused before registration with the state untouched, or registered.\<close>

lemma first_read:
  assumes "readAtLeast (\<lambda>_ w. w) alive 512 18 reads w = ((data, ok), rest, w')"
  shows "w' = w \<and> (\<exists>rest'. data @ rest' = inBytes reads) \<and> length data \<le> 512 \<and> (ok \<longleftrightarrow> 18 \<le> length data)"
proof -
  have l: "readLoop (\<lambda>_ w. w) alive 512 18 reads [] w = ((data, ok), rest, w')"
    using assms by (simp add: readAtLeast_def)
  have id: "fold (\<lambda>_ w. w) ns w = w" for ns :: "nat list" by (induction ns) auto
  have "w' = w" using readLoop_accounts [OF l] by (simp add: id)
  with readLoop_bytes [OF l] readLoop_ok [OF l] show ?thesis by auto
qed

lemma handshake_cases:
  assumes "handshake L c w = (out, reg, w')"
  obtains (refused) e where "out = Rejected e" "reg = None" "w' = w"
  | (regd) u reads data rest where "reg = Some u" "handshakeReads L c w = Some reads" "users w u \<noteq> None" "\<not> userOverQuota u w"
      "18 \<le> length data" "length data \<le> 512" "data ! 0 = Version" "u = take 16 (drop 1 data)"
      "\<exists>ds. data @ ds = inBytes reads"
      "afterAuth L c u (entryNodeOf (k_kind c) w) data rest (registered u c (length data) w) = (out, w')"
proof (cases "handshakeReads L c w")
  case None
  with assms have "out = Rejected HandshakeFailed \<and> reg = None \<and> w' = w"
    by (auto simp: handshake_def handshakeReads_def Let_def)
  with refused show thesis by blast
next
  case (Some reads)
  obtain data ok rest w0 where ra: "readAtLeast (\<lambda>_ w. w) (isOpen (k_id c)) 512 18 reads w = ((data, ok), rest, w0)"
    by (metis prod.exhaust)
  note fr = first_read [OF ra]
  let ?u = "take 16 (drop 1 data)"
  have hs: "handshake L c w =
     (if \<not> ok then (Rejected ShortHeader, None, w)
      else if data ! 0 \<noteq> Version then (Rejected (BadVersion (data ! 0)), None, w)
      else if users w ?u = None then (Rejected Unauthorized, None, w)
      else if userOverQuota ?u w then (Rejected OverQuota, None, w)
      else (let (out, w2) = afterAuth L c ?u (entryNodeOf (k_kind c) w) data rest (registered ?u c (length data) w)
            in (out, Some ?u, w2)))"
    using Some ra fr by (simp add: handshake_def handshakeReads_def registered_def Let_def)
  show thesis
  proof (cases "\<not> ok \<or> data ! 0 \<noteq> Version \<or> users w ?u = None \<or> userOverQuota ?u w")
    case True
    with hs assms refused show thesis by (auto split: if_splits)
  next
    case False
    then have "reg = Some ?u \<and> afterAuth L c ?u (entryNodeOf (k_kind c) w) data rest (registered ?u c (length data) w) = (out, w')"
      using hs assms by (auto simp: Let_def split: prod.splits)
    with regd Some False fr show thesis by blast
  qed
qed

text \<open>Which outcomes count the response.\<close>

lemma dispatch_response:
  assumes "dispatch L c u node flow buf n cur w = (out, w')"
  shows "case out of
      Relayed r \<Rightarrow> w' = countingWrite L u node (int (fst (k_write c))) w
    | Rejected e \<Rightarrow> w' = (if e = WriteFailed \<and> isOpen (k_id c) w then countingWrite L u node (int (fst (k_write c))) w else w)
    | Panicked \<Rightarrow> w' = w \<or> w' = countingWrite L u node (int (fst (k_write c))) w"
  using assms
  by (auto simp: dispatch_def writeResponse_def Let_def split: option.splits if_splits target.splits prod.splits)

text \<open>What the second header read takes, as an observation of the run: \<open>addonsAt\<close> is the decoding of the addons,
  \<open>headNeed\<close> the bytes up to the address type, \<open>headRead\<close> the bytes of the second read (none when the first
  brought enough, or when the addons are refused) and the state after it.\<close>

definition addonsAt :: "('l, 'd) lib \<Rightarrow> byte list \<Rightarrow> string option" where
  "addonsAt L data =
     (let buf = copy_arr 512 data; addonsLen = unat (buf ! 17)
      in if addonsLen = 0 then Some [] else Option.bind (go_slice 18 (18 + addonsLen) buf) (AddonsFlow L))"

definition headNeed :: "byte list \<Rightarrow> nat" where
  "headNeed data = 18 + unat (copy_arr 512 data ! 17) + 1 + 2 + 1"

definition headRead :: "('l, 'd) lib \<Rightarrow> conn_in \<Rightarrow> uuid \<Rightarrow> string \<Rightarrow> byte list \<Rightarrow> netin \<Rightarrow> ('l, 'd) world
    \<Rightarrow> byte list \<times> ('l, 'd) world" where
  "headRead L c u node data rest w =
     (if addonsAt L data = None \<or> headNeed data \<le> length data then ([], w)
      else (let ((data2, _), _, w1) = readAtLeast (\<lambda>k. countingRead L u node (int k)) (isOpen (k_id c))
                    (512 - length data) (headNeed data - length data) rest w
            in (data2, w1)))"

lemma headRead_state:
  assumes "headRead L c u node data rest w = (d2, w1)" "length data \<le> 512"
  shows "\<exists>ns. w1 = readAll L u node ns w \<and> sum_list ns = length d2 \<and> (\<forall>n \<in> set ns. 0 < n) \<and>
    length data + length d2 \<le> 512 \<and> (\<exists>tail. d2 @ tail = inBytes rest)"
proof (cases "addonsAt L data = None \<or> headNeed data \<le> length data")
  case True
  with assms show ?thesis by (auto simp: headRead_def intro!: exI [of _ "[]"])
next
  case False
  obtain b ok r2 v where rd: "readAtLeast (\<lambda>k. countingRead L u node (int k)) (isOpen (k_id c))
      (512 - length data) (headNeed data - length data) rest w = ((b, ok), r2, v)"
    by (metis prod.exhaust)
  with False assms(1) have e: "b = d2" "v = w1" by (auto simp: headRead_def)
  have a: "headNeed data \<le> 512" using unat_byte_less [of "copy_arr 512 data ! 17"] unfolding headNeed_def by linarith
  then have cap: "headNeed data - length data \<le> 512 - length data" by simp
  have loop: "readLoop (\<lambda>k. countingRead L u node (int k)) (isOpen (k_id c))
      (512 - length data) (headNeed data - length data) rest [] w = ((d2, ok), r2, w1)"
    using rd a e by (simp add: readAtLeast_def split: if_splits)
  have "length d2 \<le> 512 - length data" using readLoop_ok [OF loop cap] by simp
  moreover have "\<exists>tail. d2 @ tail = inBytes rest" using readLoop_bytes [OF loop] by auto
  ultimately show ?thesis using readLoop_accounts [OF loop cap] assms(2) by auto
qed

text \<open>After the header reads, the response is all the counters may see, and the outcome says whether they do.\<close>

lemma afterAuth_headRead:
  assumes "afterAuth L c u node data rest w = (out, w')" "headRead L c u node data rest w = (d2, w1)"
  shows "case out of
      Relayed r \<Rightarrow> w' = countingWrite L u node (int (fst (k_write c))) w1
    | Rejected e \<Rightarrow> w' = (if e = WriteFailed \<and> isOpen (k_id c) w1 then countingWrite L u node (int (fst (k_write c))) w1 else w1)
    | Panicked \<Rightarrow> w' = w1 \<or> w' = countingWrite L u node (int (fst (k_write c))) w1"
proof (cases "addonsAt L data")
  case None
  with assms show ?thesis by (auto simp: afterAuth_def headRead_def addonsAt_def Let_def)
next
  case (Some flow)
  then have fl: "(if unat (copy_arr 512 data ! 17) = 0 then Some []
      else Option.bind (go_slice 18 (18 + unat (copy_arr 512 data ! 17)) (copy_arr 512 data)) (AddonsFlow L)) = Some flow"
    by (simp add: addonsAt_def Let_def)
  show ?thesis
  proof (cases "headNeed data \<le> length data")
    case True
    with assms fl Some have w: "w1 = w"
      and d: "dispatch L c u node flow (copy_arr 512 data) (length data) (18 + unat (copy_arr 512 data ! 17)) w = (out, w')"
      by (simp_all add: afterAuth_def headRead_def headNeed_def Let_def)
    show ?thesis unfolding w by (rule dispatch_response [OF d])
  next
    case False
    obtain b ok r2 v where rd: "readAtLeast (\<lambda>k. countingRead L u node (int k)) (isOpen (k_id c))
        (512 - length data) (headNeed data - length data) rest w = ((b, ok), r2, v)"
      by (metis prod.exhaust)
    with False Some assms(2) have e: "v = w1" by (simp add: headRead_def)
    show ?thesis
    proof (cases ok)
      case True
      with assms(1) fl False rd e have
        "dispatch L c u node flow (copy_arr 512 (data @ b)) (length data + length b) (18 + unat (copy_arr 512 data ! 17)) w1 = (out, w')"
        by (simp add: afterAuth_def headNeed_def Let_def)
      then show ?thesis by (rule dispatch_response)
    next
      case False
      with assms(1) fl \<open>\<not> headNeed data \<le> length data\<close> rd e show ?thesis by (auto simp: afterAuth_def headNeed_def Let_def)
    qed
  qed
qed

text \<open>A registered connection, with the data of its first read.\<close>

lemma handshake_read:
  assumes "handshake L c w = (out, Some u, w')"
  obtains reads data rest where "handshakeReads L c w = Some reads"
    "readAtLeast (\<lambda>_ w. w) (isOpen (k_id c)) 512 18 reads w = ((data, True), rest, w)"
    "18 \<le> length data" "length data \<le> 512" "u = take 16 (drop 1 data)" "data @ inBytes rest = inBytes reads"
    "afterAuth L c u (entryNodeOf (k_kind c) w) data rest (registered u c (length data) w) = (out, w')"
proof -
  obtain reads where r: "handshakeReads L c w = Some reads"
    using assms by (cases "handshakeReads L c w") (auto simp: handshake_def handshakeReads_def Let_def)
  obtain data ok rest w0 where ra: "readAtLeast (\<lambda>_ w. w) (isOpen (k_id c)) 512 18 reads w = ((data, ok), rest, w0)"
    by (metis prod.exhaust)
  note fr = first_read [OF ra]
  have b: "data @ inBytes rest = inBytes reads"
    using ra readLoop_bytes [of "\<lambda>_ w. w" "isOpen (k_id c)" 512 18 reads "[]" w data ok rest w0] by (simp add: readAtLeast_def)
  have "ok \<and> u = take 16 (drop 1 data) \<and>
      afterAuth L c u (entryNodeOf (k_kind c) w) data rest (registered u c (length data) w) = (out, w')"
    using assms r ra fr
    by (auto simp: handshake_def handshakeReads_def registered_def Let_def split: if_splits prod.splits)
  with r ra fr b that show thesis by auto
qed

text \<open>What of the response the counters see, by the outcome: \<open>wh\<close> is the state when it is written.\<close>

definition responseCounted :: "conn_in \<Rightarrow> outcome \<Rightarrow> ('l, 'd) world \<Rightarrow> int \<Rightarrow> bool" where
  "responseCounted c out wh m =
     (case out of
        Relayed r \<Rightarrow> m = int (fst (k_write c))
      | Rejected e \<Rightarrow> m = (if e = WriteFailed \<and> isOpen (k_id c) wh then int (fst (k_write c)) else 0)
      | Panicked \<Rightarrow> m = 0 \<or> m = int (fst (k_write c)))"

lemma registered_counts:
  assumes h: "handshake L c w = (out, Some u, w')" and wf: "wf_world w"
  defines "node \<equiv> entryNodeOf (k_kind c) w"
  shows "\<exists>reads data rest d2 wh m.
      handshakeReads L c w = Some reads \<and>
      readAtLeast (\<lambda>_ w. w) (isOpen (k_id c)) 512 18 reads w = ((data, True), rest, w) \<and>
      headRead L c u node data rest (registered u c (length data) w) = (d2, wh) \<and>
      responseCounted c out wh m \<and>
      18 \<le> length data \<and> length data + length d2 \<le> 512 \<and> (\<exists>tail. data @ d2 @ tail = inBytes reads) \<and>
      (\<forall>k. counter w' k = (if k = (u, node)
         then (wrap64 (fst (counter w k) + int (length data + length d2)), wrap64 (snd (counter w k) + m))
         else counter w k)) \<and>
      userConns w' = userConns (addConn u (k_id c) w) \<and> users w' = users w"
proof -
  from handshake_read [OF h] obtain reads data rest where r: "handshakeReads L c w = Some reads"
    "readAtLeast (\<lambda>_ w. w) (isOpen (k_id c)) 512 18 reads w = ((data, True), rest, w)"
    "18 \<le> length data" "length data \<le> 512" "data @ inBytes rest = inBytes reads"
    "afterAuth L c u node data rest (registered u c (length data) w) = (out, w')" unfolding node_def by metis
  let ?w = "registered u c (length data) w"
  let ?m = "int (fst (k_write c))"
  obtain d2 wh where hr: "headRead L c u node data rest ?w = (d2, wh)" by fastforce
  from headRead_state [OF hr r(4)] obtain ns tail where ns: "wh = readAll L u node ns ?w" "sum_list ns = length d2"
    "\<forall>n \<in> set ns. 0 < n" "length data + length d2 \<le> 512" "d2 @ tail = inBytes rest" by blast
  have i64: "is_i64 (fst (counter w k))" "is_i64 (snd (counter w k))" for k
    using wf by (cases k; cases "userTraffic w k"; simp add: wf_world_def counter_def is_i64_def; blast)+
  have reg: "counter ?w k = (if k = (u, node)
      then (wrap64 (fst (counter w k) + int (length data)), snd (counter w k)) else counter w k)" for k
    using i64 by (simp add: registered_def addTraffic_counter wrap64_id node_def)
  have i64': "is_i64 (fst (counter ?w k))" "is_i64 (snd (counter ?w k))" for k
    using i64 by (simp_all add: reg)
  have rd: "counter wh k = (if k = (u, node)
      then (wrap64 (fst (counter w k) + int (length data + length d2)), snd (counter w k)) else counter w k)" for k
    using readAll_counter [OF i64' ns(3)] by (simp add: reg add.assoc ns(1,2))
  have i64'': "is_i64 (fst (counter wh k))" "is_i64 (snd (counter wh k))" for k
    using i64 by (simp_all add: rd)
  have none: "\<forall>k. counter wh k = (if k = (u, node)
      then (wrap64 (fst (counter w k) + int (length data + length d2)), wrap64 (snd (counter w k) + 0)) else counter w k)"
    using i64 by (simp add: rd wrap64_id)
  have wr: "\<forall>k. counter (countingWrite L u node ?m wh) k = (if k = (u, node)
      then (wrap64 (fst (counter w k) + int (length data + length d2)), wrap64 (snd (counter w k) + ?m)) else counter w k)"
    using i64'' by (simp add: countingWrite_counter rd)
  have w': "w' = wh \<or> w' = countingWrite L u node ?m wh"
    using afterAuth_headRead [OF r(6) hr] by (auto split: outcome.splits if_splits)
  have "userConns w' = userConns (addConn u (k_id c) w) \<and> users w' = users w"
    using w' ns(1) by (auto simp: registered_def)
  moreover have "\<exists>m. responseCounted c out wh m \<and> (\<forall>k. counter w' k = (if k = (u, node)
      then (wrap64 (fst (counter w k) + int (length data + length d2)), wrap64 (snd (counter w k) + m)) else counter w k))"
  proof -
    consider (a) "w' = wh" "responseCounted c out wh 0" | (b) "w' = countingWrite L u node ?m wh" "responseCounted c out wh ?m"
      using afterAuth_headRead [OF r(6) hr] by (auto simp: responseCounted_def split: outcome.splits if_splits)
    then show ?thesis
    proof cases
      case a with none show ?thesis by blast
    next
      case b with wr show ?thesis by blast
    qed
  qed
  moreover have "data @ d2 @ tail = inBytes reads" using r(5) ns(5) by simp
  ultimately show ?thesis using r(1-3) hr ns(4) by blast
qed

section \<open>Properties\<close>

text \<open>C2: whatever the peer sends, a connection is only ever relayed for a user of the current user set who is
  not over quota and whose UUID, after the version byte, opens the stream; Vision only when the configuration
  allows the flow and no decryption layer is active, Mux only when it is enabled.\<close>

theorem handshake_relayed_safe:
  assumes "handshake L c w = (Relayed r, reg, w')"
  shows "\<exists>u reads. reg = Some u \<and> users w u \<noteq> None \<and> \<not> userOverQuota u w \<and>
      handshakeReads L c w = Some reads \<and> take 17 (inBytes reads) = Version # u \<and>
      (case r of
         MuxRelay i v \<Rightarrow> enableMux w \<and> (v \<longrightarrow> v_Flow (vless_cfg w) = XRV \<and> decryption w = None)
       | VisionRelay a i \<Rightarrow> v_Flow (vless_cfg w) = XRV \<and> decryption w = None
       | _ \<Rightarrow> True)"
  using assms
proof (cases rule: handshake_cases)
  case (regd u reads data rest)
  obtain ds where ds: "data @ ds = inBytes reads" using regd(9) by blast
  have "take 17 (inBytes reads) = take 17 data"
    using regd(5) by (simp add: ds [symmetric])
  also have "\<dots> = data ! 0 # u"
    using regd(5) unfolding regd(8) by (cases data) simp_all
  finally have "take 17 (inBytes reads) = Version # u" using regd(7) by simp
  with regd(1-4) afterAuth_relayed [OF regd(10), unfolded registered_frame] show ?thesis by auto
qed simp

theorem handshake_relayed_safe_witness:
  "\<exists>u. fst (snd (handshake exLib (exConn [(encodeHeader exUUID [] CmdTCP 443 (Dom ''a.io'') @ [], False)]) exServer)) = Some u \<and>
     users exServer u \<noteq> None"
proof -
  from exServer_accepts [of "[]" False] obtain a r w' where
    "handshake exLib (exConn [(encodeHeader exUUID [] CmdTCP 443 (Dom ''a.io'') @ [], False)]) exServer = (Relayed a, r, w')"
    by auto
  from handshake_relayed_safe [OF this] this show ?thesis by auto
qed

text \<open>C11: a connection that is refused before it is registered (failed decryption, short or malformed header,
  unknown user, user over quota) leaves the server state untouched. One that is registered has sent the bytes
  \<open>data @ d2\<close> its two header reads took from the front of the client's stream, at most 512: her upload counter
  on the entry point of the connection grew by exactly their number, her download counter by the response bytes
  written when it is relayed, by what a failing write got out, and by nothing when it is refused earlier. No
  other counter moved, and the user set is untouched.\<close>

theorem handshake_accounting:
  assumes "handshake L c w = (out, reg, w')" and "wf_world w"
  shows "(reg = None \<longrightarrow> w' = w) \<and>
    (\<forall>u. reg = Some u \<longrightarrow>
      (\<exists>reads data rest d2 wh m.
        handshakeReads L c w = Some reads \<and>
        readAtLeast (\<lambda>_ w. w) (isOpen (k_id c)) 512 18 reads w = ((data, True), rest, w) \<and>
        headRead L c u (entryNodeOf (k_kind c) w) data rest (registered u c (length data) w) = (d2, wh) \<and>
        responseCounted c out wh m \<and>
        18 \<le> length data \<and> length data + length d2 \<le> 512 \<and> (\<exists>tail. data @ d2 @ tail = inBytes reads) \<and>
        (\<forall>k. counter w' k = (if k = (u, entryNodeOf (k_kind c) w)
           then (wrap64 (fst (counter w k) + int (length data + length d2)), wrap64 (snd (counter w k) + m))
           else counter w k)) \<and>
        userConns w' = userConns (addConn u (k_id c) w) \<and> users w' = users w))"
proof (cases reg)
  case None
  with assms(1) show ?thesis by (cases rule: handshake_cases) simp_all
next
  case (Some u)
  from registered_counts [OF assms(1) [unfolded Some] assms(2)] Some show ?thesis by simp
qed

lemma exServer_wf: "wf_world exServer"
  using NewServer_wf by (simp add: exServer_def wf_world_def NewServer_def)

lemma headNeed_encode:
  assumes "length u = 16" "length ad < 256" "length (encodeHeader u ad cmd p d @ payload) \<le> 512"
  shows "headNeed (encodeHeader u ad cmd p d @ payload) = 22 + length ad"
proof -
  obtain pad where buf: "copy_arr 512 (encodeHeader u ad cmd p d @ payload) = encodeHeader u ad cmd p d @ payload @ pad"
    using assms(3) by (simp add: copy_arr_def)
  have "(encodeHeader u ad cmd p d @ payload @ pad) ! 17 = of_nat (length ad)"
    using assms(1) by (simp add: encodeHeader_def encodeHead_def nth_append)
  with assms(2) show ?thesis unfolding headNeed_def buf by (simp add: unat_len)
qed

theorem handshake_accounting_witness:
  "case handshake exLib (exConn [(encodeHeader exUUID [] CmdTCP 443 (Dom ''a.io'') @ [5, 6], False)]) exServer of (out, reg, w') \<Rightarrow>
     reg \<noteq> None \<and> counter w' (exUUID, []) = (29, 2)"
proof -
  let ?h = "encodeHeader exUUID [] CmdTCP 443 (Dom ''a.io'') @ [5, 6]"
  from exServer_accepts [of "[5, 6]" False] obtain a w' where h:
    "handshake exLib (exConn [(?h, False)]) exServer = (Relayed a, Some exUUID, w')"
    by auto
  have c0: "counter exServer k = (0, 0)" for k by (simp add: counter_def exServer_def NewServer_def)
  have "readAtLeast (\<lambda>_ w. w) (isOpen (k_id (exConn [(?h, False)]))) 512 18 [(?h, False)] exServer = ((?h, True), [], exServer)"
    by (subst readAtLeast_first) simp_all
  moreover have "headRead exLib (exConn [(?h, False)]) exUUID (entryNodeOf (k_kind (exConn [(?h, False)])) exServer) ?h [] w = ([], w)" for w :: ex_world
    using headNeed_encode [of exUUID "[]" CmdTCP 443 "Dom ''a.io''" "[5, 6]"] by (simp add: headRead_def)
  ultimately have "counter w' (exUUID, entryNodeOf (k_kind (exConn [(?h, False)])) exServer) = (29, 2)"
    using handshake_accounting [OF h exServer_wf] by (auto simp: c0 responseCounted_def wrap64_id is_i64_def)
  with h show ?thesis by (simp add: exConn_def entryNodeOf_def)
qed

section \<open>A header that arrives in two pieces\<close>

text \<open>When the bytes received end inside the address, the remaining bytes of the buffer are zeros: the
  address parses, and the slice for the payload is out of range.\<close>

lemma dispatch_panics:
  assumes hdr: "length u = 16" "p < 65536" "dest_ok d"
    and cmd: "cmd = CmdTCP \<or> cmd = CmdUDP \<and> flow \<noteq> XRV"
    and flow: "flow_ok w flow"
    and wr: "isOpen (k_id c) w" "k_write c = (m, False)"
    and n: "n < length (encodeHeader u ad cmd p d)"
  shows "fst (dispatch L c v node flow (encodeHeader u ad cmd p d @ pad) n (18 + length ad) w) = Panicked"
proof -
  let ?buf = "encodeHeader u ad cmd p d @ pad"
  have i: "go_index ?buf (18 + length ad) = Some cmd"
    using hdr(1) by (simp add: encodeHeader_def encodeHead_def go_index_def nth_append)
  have t: "parseTarget ?buf (19 + length ad) = TAddr (hostOf d) p (length (encodeHeader u ad cmd p d))"
    using parseTarget_encode [OF hdr(2,3), of "encodeHead u ad cmd" pad] hdr(1)
    by (simp add: encodeHeader_def encodePort_def)
  have s: "go_slice (length (encodeHeader u ad cmd p d)) n ?buf = None"
    using n by (simp add: go_slice_def)
  have c: "cmd \<noteq> CmdMux" using cmd by (auto simp: protocol_consts)
  have wr': "writeResponse L c v node w = (True, countingWrite L v node (int m) w)"
    using wr by (simp add: writeResponse_def)
  have nv: "\<not> (flow = XRV \<and> cmd = CmdUDP)" "\<not> (flow = XRV \<and> v_Flow (vless_cfg w) \<noteq> XRV)" "\<not> (flow = XRV \<and> decryption w \<noteq> None)"
    "\<not> \<not> (cmd = CmdTCP \<or> cmd = CmdUDP)"
    using cmd flow by (auto simp: flow_ok_def protocol_consts)
  have one: "18 + length ad + 1 = 19 + length ad" by simp
  show ?thesis
    unfolding dispatch_def i option.case Let_def one t target.case wr' prod.case s
      nv [THEN if_not_P] c [THEN if_not_P]
    by simp
qed

definition isIP :: "dest \<Rightarrow> bool" where
  "isIP d = (case d of Dom _ \<Rightarrow> False | _ \<Rightarrow> True)"

text \<open>The first piece of a header whose address is cut after \<open>k\<close> bytes.\<close>

definition cutHeader :: "uuid \<Rightarrow> byte list \<Rightarrow> byte \<Rightarrow> nat \<Rightarrow> dest \<Rightarrow> nat \<Rightarrow> byte list" where
  "cutHeader u ad cmd p d k = encodeHead u ad cmd @ encodePort p @ take (Suc k) (encodeAddr d)"

lemma zero_filled:
  assumes "dest_ok d" "isIP d" "Suc k < length (encodeAddr d)"
  obtains d' where "dest_ok d'" "take (Suc k) (encodeAddr d) @ replicate (length (encodeAddr d) - Suc k) 0 = encodeAddr d'"
    "length (encodeAddr d') = length (encodeAddr d)"
proof (cases d)
  case (V4 a)
  with assms that [of "V4 (take k a @ replicate (4 - k) 0)"] show thesis by (simp add: min_def)
next
  case (V6 a)
  with assms that [of "V6 (take k a @ replicate (16 - k) 0)"] show thesis by (simp add: min_def)
qed (use assms in \<open>simp add: isIP_def\<close>)

text \<open>C12: a TCP or UDP request of an authorised user for an IP address panics the server when the first read
  ends inside the address, whatever arrives later (the missing bytes are never read): the index expression of
  the payload slice is past the bytes received. The panic is not recovered, so it ends the process.\<close>

theorem fragmented_header_panics:
  assumes hdr: "length u = 16" "p < 65536" "dest_ok d" "isIP d" "length ad < 256" "Suc k < length (encodeAddr d)"
    and reads: "handshakeReads L c w = Some ((cutHeader u ad cmd p d k, e) # rest)"
    and auth: "users w u \<noteq> None" "\<not> userOverQuota u w"
    and ad: "(if ad = [] then Some [] else AddonsFlow L ad) = Some flow"
    and cmd: "cmd = CmdTCP \<or> cmd = CmdUDP \<and> flow \<noteq> XRV"
    and flow: "flow_ok w flow"
    and wr: "isOpen (k_id c) w" "k_write c = (2, False)"
    and quota: "isOpen (k_id c) (registered u c (length (cutHeader u ad cmd p d k)) w)"
  shows "fst (handshake L c w) = Panicked"
proof -
  let ?data = "cutHeader u ad cmd p d k"
  let ?w = "registered u c (length ?data) w"
  obtain d' where d': "dest_ok d'" "take (Suc k) (encodeAddr d) @ replicate (length (encodeAddr d) - Suc k) 0 = encodeAddr d'"
      "length (encodeAddr d') = length (encodeAddr d)"
    using zero_filled [OF hdr(3,4,6)] by blast
  have le17: "length (encodeAddr d) \<le> 17" using hdr(3,4) by (cases d) (simp_all add: isIP_def)
  have len: "length ?data = 22 + length ad + k"
    using hdr(1,6) by (simp add: cutHeader_def encodePort_def)
  let ?pad = "replicate (512 - length ?data - (length (encodeAddr d) - Suc k)) (0 :: byte)"
  have split: "512 - length ?data = (length (encodeAddr d) - Suc k) + (512 - length ?data - (length (encodeAddr d) - Suc k))"
    using len le17 hdr(5,6) by simp
  have size: "length ?data \<le> 512" using len le17 hdr(5,6) by simp
  have "copy_arr 512 ?data = ?data @ replicate (512 - length ?data) 0"
    using size by (simp add: copy_arr_def)
  also have "\<dots> = ?data @ replicate (length (encodeAddr d) - Suc k) 0 @ ?pad"
    by (subst split) (simp add: replicate_add)
  also have "\<dots> = encodeHead u ad cmd @ encodePort p @ (take (Suc k) (encodeAddr d) @ replicate (length (encodeAddr d) - Suc k) 0) @ ?pad"
    by (simp add: cutHeader_def)
  finally have buf: "copy_arr 512 ?data = encodeHeader u ad cmd p d' @ ?pad"
    unfolding d'(2) by (simp add: encodeHeader_def)
  let ?buf = "encodeHeader u ad cmd p d' @ ?pad"
  have ul: "unat (?buf ! 17) = length ad"
    using hdr(1,5) by (simp add: encodeHeader_def encodeHead_def nth_append unat_len)
  have sl: "go_slice 18 (18 + length ad) ?buf = Some ad"
    using go_slice_at [of 18 "Version # u @ [of_nat (length ad)]" "18 + length ad" ad] hdr(1)
    by (simp add: encodeHeader_def encodeHead_def)
  have fl: "(if unat (?buf ! 17) = 0 then Some [] else Option.bind (go_slice 18 (18 + unat (?buf ! 17)) ?buf) (AddonsFlow L)) = Some flow"
    unfolding ul using ad sl by (cases ad) simp_all
  have enough: "\<not> length ?data < 18 + length ad + 1 + 2 + 1" using len by simp
  have short: "length ?data < length (encodeHeader u ad cmd p d')"
    using d'(3) hdr(1,6) by (simp add: cutHeader_def encodeHeader_def)
  have fo: "flow_ok ?w flow" using flow by (simp add: flow_ok_def)
  have "fst (afterAuth L c u (entryNodeOf (k_kind c) w) ?data rest ?w) = Panicked"
    unfolding afterAuth_def Let_def buf fl option.case
    unfolding ul if_not_P [OF enough]
    by (rule dispatch_panics [OF hdr(1,2) d'(1) cmd fo quota wr(2) short])
  moreover have "?data ! 0 = Version" "take 16 (drop 1 ?data) = u" "18 \<le> length ?data"
    using hdr(1) len by (simp_all add: cutHeader_def encodeHead_def)
  ultimately show ?thesis
    using handshake_first [OF reads _ size wr(1)] auth by (simp add: Let_def split: prod.splits)
qed

theorem fragmented_header_panics_witness:
  "fst (handshake exLib (exConn [(cutHeader exUUID [] CmdTCP 443 (V4 [10, 0, 0, 1]) 2, False), ([0, 1], False)]) exServer) = Panicked"
  by (rule fragmented_header_panics [where u = exUUID and ad = "[]" and cmd = CmdTCP and p = 443
        and d = "V4 [10, 0, 0, 1]" and k = 2 and flow = "[]" and e = False and rest = "[([0, 1], False)]"])
    (simp_all add: isIP_def)


text \<open>C13: the addons are decoded before the rest of the header is awaited: when the first read ends inside the
  addons, what is decoded is the bytes received filled up with zeros, so a request whose addons are valid is
  refused whenever that prefix is not (a protobuf field with tag zero is not), whatever arrives later.\<close>

theorem split_addons_rejected:
  assumes "length u = 16" "length ad < 256" "k < length ad"
    and reads: "handshakeReads L c w = Some ((Version # u @ of_nat (length ad) # take k ad, e) # rest)"
    and auth: "users w u \<noteq> None" "\<not> userOverQuota u w" "isOpen (k_id c) w"
    and bad: "AddonsFlow L (take k ad @ replicate (length ad - k) 0) = None"
  shows "fst (handshake L c w) = Rejected BadAddons"
proof -
  let ?data = "Version # u @ of_nat (length ad) # take k ad"
  have len: "length ?data = 18 + k" using assms(1,3) by simp
  have split: "512 - length ?data = (length ad - k) + (512 - length ?data - (length ad - k))"
    using len assms(2,3) by simp
  have size: "length ?data \<le> 512" using len assms(2,3) by simp
  let ?ad = "take k ad @ replicate (length ad - k) 0"
  let ?buf = "(Version # u @ [of_nat (length ad)]) @ ?ad @ replicate (512 - length ?data - (length ad - k)) 0"
  have "copy_arr 512 ?data = ?data @ replicate (512 - length ?data) 0"
    using size by (simp add: copy_arr_def)
  also have "\<dots> = ?buf" by (subst split) (simp add: replicate_add)
  finally have buf: "copy_arr 512 ?data = ?buf" .
  have ul: "unat (?buf ! 17) = length ad" using assms(1,2) by (simp add: nth_append unat_len)
  have "go_slice 18 (18 + length ad) ?buf = Some ?ad"
    using assms(1,3) by (intro go_slice_at) simp_all
  then have fl: "(if unat (?buf ! 17) = 0 then Some [] else Option.bind (go_slice 18 (18 + unat (?buf ! 17)) ?buf) (AddonsFlow L)) = None"
    unfolding ul using bad assms(3) by (cases ad) simp_all
  have "afterAuth L c u node ?data rest w1 = (Rejected BadAddons, w1)" for node w1
    unfolding afterAuth_def Let_def buf fl option.case by simp
  moreover have "?data ! 0 = Version" "take 16 (drop 1 ?data) = u" "18 \<le> length ?data"
    using assms(1) len by simp_all
  ultimately show ?thesis
    using handshake_first [OF reads _ size auth(3)] auth by (simp add: Let_def split: prod.splits)
qed

text \<open>A decoder that accepts one message only: the flow field with the Vision flow.\<close>

definition exAddons :: "byte list" where
  "exAddons = 10 # of_nat (length XRV) # map byte_of XRV"

definition exStrictLib :: "(nat \<times> int \<times> int, unit) lib" where
  "exStrictLib = exLib\<lparr>AddonsFlow := (\<lambda>bs. if bs = exAddons then Some XRV else None)\<rparr>"

theorem split_addons_rejected_witness:
  "fst (handshake exStrictLib (exConn [(Version # exUUID @ of_nat (length exAddons) # take 0 exAddons, False),
     (exAddons @ [CmdTCP], False)]) exServer) = Rejected BadAddons"
  by (rule split_addons_rejected [where u = exUUID and ad = exAddons and k = 0 and e = False])
    (simp_all add: exStrictLib_def exAddons_def XRV_def)

section \<open>The clean-up\<close>


lemma transfers_frame [frames, simp]:
  "users (plainTransfer L u node t w) = users w" "userConns (plainTransfer L u node t w) = userConns w"
  "users (visionTransfer L u node t w) = users w" "userConns (visionTransfer L u node t w) = userConns w"
  "users (muxVisionTransfer u node t w) = users w" "userConns (muxVisionTransfer u node t w) = userConns w"
  by (cases t; simp add: Let_def limitedRead_def limitedWrite_def)+

lemma relayStep_frame [frames, simp]:
  "users (relayStep L u node r t w) = users w"
  "userConns (relayStep L u node r t w) = userConns w"
  by (simp_all add: relayStep_def split: relay.split)

lemma relayRun_frame [frames, simp]:
  "users (relayRun L u node r ts w) = users w"
  "userConns (relayRun L u node r ts w) = userConns w"
  unfolding relayRun_def by (induction ts arbitrary: w) simp_all

lemma registered_userConns: "userConns (registered u c n w) = userConns (addConn u (k_id c) w)"
  by (simp add: registered_def)

lemma handshake_userConns:
  assumes "handshake L c w = (out, Some u, w')"
  shows "userConns w' = userConns (addConn u (k_id c) w)"
  using assms
proof (cases rule: handshake_cases)
  case (regd v reads data rest)
  from afterAuth_state [OF regd(10,6)] regd(1) show ?thesis by (auto simp: registered_userConns)
qed simp

text \<open>C14: whatever the peer sends and whatever the relay transfers, when the handler of a connection returns its
  socket is closed and the connection registry is exactly what it was before: no handler leaks an entry.\<close>

theorem handleConnection_releases:
  assumes "wf_world w" and "\<forall>u. k_id c \<notin> connsOf w u"
  shows "userConns (snd (handleConnection L c ts w)) = userConns w \<and>
         k_id c \<in> closed (snd (handleConnection L c ts w))"
proof -
  obtain out reg w1 where h: "handshake L c w = (out, reg, w1)" by (metis prod.exhaust)
  show ?thesis
  proof (cases reg)
    case None
    from h None have "w1 = w" by (cases rule: handshake_cases) auto
    with h None show ?thesis by (simp add: handleConnection_def handlerExit_eq split: outcome.split)
  next
    case (Some u)
    define w2 where "w2 = (case out of Relayed r \<Rightarrow> (if relayReady c r then relayRun L u (entryNodeOf (k_kind c) w) r ts w1 else w1) | _ \<Rightarrow> w1)"
    have "userConns w2 = userConns (addConn u (k_id c) w)"
      using handshake_userConns [of L c w out u w1] h Some by (simp add: w2_def split: outcome.split)
    with assms have "userConns (removeConn u (k_id c) w2) = userConns w"
      by (intro removeConn_restores) simp_all
    moreover have "snd (handleConnection L c ts w) = handlerExit (Some u) (k_id c) w2"
      using h Some by (simp add: handleConnection_def w2_def Let_def split: outcome.split)
    ultimately show ?thesis by (simp add: handlerExit_eq Let_def)
  qed
qed

theorem handleConnection_releases_witness:
  "userConns (snd (handleConnection exLib (exConn [([0, 1], False)]) [FromClient 5] exServer)) = userConns exServer"
  using handleConnection_releases [of exServer "exConn [([0, 1], False)]" exLib "[FromClient 5]"] exServer_wf
  by (simp add: connsOf_def exServer_def NewServer_def)
end
