(* ===== verification/Config_Update.thy ===== *)
theory Config_Update
  imports Handler
begin

text \<open>
  \<open>proxy/vless/server.go\<close>: hot reload of the node configuration (\<open>UpdateConfig\<close>), the comparisons it makes,
  the rebuild of the VLESS decryption instance, and the short-ID table used for traffic attribution. A
  slice field of the configuration is a list: the nil slice and the empty one are not told apart.
\<close>

section \<open>Comparing configurations\<close>

definition transportName :: "stream \<Rightarrow> string" where
  "transportName s = (let name = (if st_Network s = [] then ''tcp'' else st_Network s)
                      in name @ ''+'' @ st_Security s)"

definition streamEqual :: "stream \<Rightarrow> stream \<Rightarrow> bool" where
  "streamEqual a b =
     (if transportName a \<noteq> transportName b then False
      else if st_Settings a \<noteq> st_Settings b then False
      else if st_TLSConfig a \<noteq> st_TLSConfig b then False
      else if st_RealityConfig a \<noteq> st_RealityConfig b then False
      else True)"

definition vlessEqual :: "vless \<Rightarrow> vless \<Rightarrow> bool" where
  "vlessEqual a b \<longleftrightarrow>
     v_Decryption a = v_Decryption b \<and> v_XorMode a = v_XorMode b \<and>
     v_SecondsFrom a = v_SecondsFrom b \<and> v_SecondsTo a = v_SecondsTo b \<and>
     v_Padding a = v_Padding b \<and> v_Flow a = v_Flow b"

section \<open>The decryption instance\<close>

datatype nfs_error = NfsBadBase64 | NfsNoKeys

text \<open>The loop over the dot-separated parts; the accumulator is \<open>out\<close>.\<close>

fun nfsLoop :: "string list \<Rightarrow> byte list list \<Rightarrow> nfs_error + byte list list" where
  "nfsLoop [] out = (if out = [] then Inl NfsNoKeys else Inr out)"
| "nfsLoop (p # parts) out =
     (if p = [] then nfsLoop parts out
      else (case b64Decode p of
              None \<Rightarrow> Inl NfsBadBase64
            | Some b \<Rightarrow> nfsLoop parts (out @ [b])))"

definition parseNfsKeys :: "string \<Rightarrow> nfs_error + byte list list" where
  "parseNfsKeys s = nfsLoop (splitOn (CHR ''.'') s) []"

definition rebuildDecryptionLocked :: "('l, 'd) lib \<Rightarrow> vless \<Rightarrow> ('l, 'd) world \<Rightarrow> ('l, 'd) world" where
  "rebuildDecryptionLocked L cfg w =
     (let w1 = (case decryption w of
            None \<Rightarrow> w
          | Some d \<Rightarrow> w\<lparr>decryption := None, closedDecs := closedDecs w @ [d]\<rparr>)
      in if v_Decryption cfg = [] \<or> v_Decryption cfg = ''none'' then w1
         else (case parseNfsKeys (v_Decryption cfg) of
                 Inl _ \<Rightarrow> w1
               | Inr keys \<Rightarrow>
                   (case SI_Init L keys (v_XorMode cfg) (v_SecondsFrom cfg) (v_SecondsTo cfg) (v_Padding cfg) of
                      None \<Rightarrow> w1
                    | Some inst \<Rightarrow> w1\<lparr>decryption := Some inst\<rparr>)))"

section \<open>Short IDs\<close>

text \<open>The key of a short ID in the attribution table; \<open>None\<close>: the entry is skipped.\<close>

definition sidKey :: "string \<Rightarrow> shortid option" where
  "sidKey sid =
     (case hexDecode (toLower (trimSpace sid)) of
        None \<Rightarrow> None
      | Some b \<Rightarrow> (if length b = 0 \<or> length b > 8 then None else Some (copy_arr 8 b)))"

definition buildSidNode :: "traffic_sid list \<Rightarrow> (shortid \<rightharpoonup> string)" where
  "buildSidNode sids =
     fold (\<lambda>ts m. case sidKey (ts_SID ts) of None \<Rightarrow> m | Some key \<Rightarrow> m(key \<mapsto> ts_NodeID ts)) sids Map.empty"

section \<open>UpdateConfig\<close>

text \<open>The configuration block for VLESS as it is stored: the flow is cleared when it cannot be used.\<close>

definition sanitizeFlow :: "config \<Rightarrow> vless" where
  "sanitizeFlow cfg =
     (let v1 = (if st_Security (c_Stream cfg) = ''none'' then (c_VLESS cfg)\<lparr>v_Flow := []\<rparr> else c_VLESS cfg);
          net = st_Network (c_Stream cfg)
      in if v_Flow v1 \<noteq> [] \<and> net \<noteq> [] \<and> net \<noteq> ''tcp'' then v1\<lparr>v_Flow := []\<rparr> else v1)"

definition UpdateConfig :: "('l, 'd) lib \<Rightarrow> config \<Rightarrow> ('l, 'd) world \<Rightarrow> ('l, 'd) world" where
  "UpdateConfig L cfg w =
     (let (w, changed) = (if port w \<noteq> c_Port cfg then (w\<lparr>port := c_Port cfg\<rparr>, True) else (w, False));
          (w, changed) = (if \<not> streamEqual (stream_cfg w) (c_Stream cfg)
                          then (w\<lparr>stream_cfg := c_Stream cfg\<rparr>, True) else (w, changed));
          w = (if \<not> vlessEqual (vless_cfg w) (c_VLESS cfg)
               then (rebuildDecryptionLocked L (sanitizeFlow cfg) w)\<lparr>vless_cfg := sanitizeFlow cfg\<rparr>
               else w);
          (gu, k1) = newRateBucket L (c_SpeedLimitUpBps cfg) (allocs w);
          (gd, k2) = newRateBucket L (c_SpeedLimitDownBps cfg) k1;
          w = w\<lparr>globalULimiter := gu, globalDLimiter := gd, allocs := k2,
                sidNode := buildSidNode (c_TrafficSIDs cfg)\<rparr>
      in case ln w of
           None \<Rightarrow> w
         | Some l \<Rightarrow> (if changed then w\<lparr>closedLns := insert l (closedLns w)\<rparr> else w))"

section \<open>Lemmas\<close>

lemma vlessEqual_iff [simp]: "vlessEqual a b \<longleftrightarrow> a = b"
  by (auto simp: vlessEqual_def)

lemma streamEqual_refl [simp]: "streamEqual s s"
  by (simp add: streamEqual_def)

definition effNetwork :: "stream \<Rightarrow> string" where
  "effNetwork s = (if st_Network s = [] then ''tcp'' else st_Network s)"

lemma append_sep_eq:
  "x \<notin> set a \<Longrightarrow> x \<notin> set b \<Longrightarrow> a @ x # s = b @ x # t \<longleftrightarrow> a = b \<and> s = t"
  by (induction a arbitrary: b) (auto simp: Cons_eq_append_conv, (case_tac b; auto)+)

lemma rebuild_frame [frames, simp]:
  "users (rebuildDecryptionLocked L v w) = users w"
  "port (rebuildDecryptionLocked L v w) = port w"
  "stream_cfg (rebuildDecryptionLocked L v w) = stream_cfg w"
  "vless_cfg (rebuildDecryptionLocked L v w) = vless_cfg w"
  "ln (rebuildDecryptionLocked L v w) = ln w"
  "closedLns (rebuildDecryptionLocked L v w) = closedLns w"
  "closed (rebuildDecryptionLocked L v w) = closed w"
  "userConns (rebuildDecryptionLocked L v w) = userConns w"
  "userTraffic (rebuildDecryptionLocked L v w) = userTraffic w"
  "userQuota (rebuildDecryptionLocked L v w) = userQuota w"
  "allocs (rebuildDecryptionLocked L v w) = allocs w"
  "userULimiters (rebuildDecryptionLocked L v w) = userULimiters w"
  "userDLimiters (rebuildDecryptionLocked L v w) = userDLimiters w"
  "globalULimiter (rebuildDecryptionLocked L v w) = globalULimiter w"
  "globalDLimiter (rebuildDecryptionLocked L v w) = globalDLimiter w"
  "enableMux (rebuildDecryptionLocked L v w) = enableMux w"
  "sidNode (rebuildDecryptionLocked L v w) = sidNode w"
  "nodeID (rebuildDecryptionLocked L v w) = nodeID w"
  by (auto simp: rebuildDecryptionLocked_def Let_def split: option.split sum.split)

definition configChanged :: "config \<Rightarrow> ('l, 'd) world \<Rightarrow> bool" where
  "configChanged cfg w \<longleftrightarrow> port w \<noteq> c_Port cfg \<or> \<not> streamEqual (stream_cfg w) (c_Stream cfg)"

lemma UpdateConfig_settings [simp]:
  "port (UpdateConfig L cfg w) = c_Port cfg"
  "stream_cfg (UpdateConfig L cfg w) = (if streamEqual (stream_cfg w) (c_Stream cfg) then stream_cfg w else c_Stream cfg)"
  "vless_cfg (UpdateConfig L cfg w) = (if vless_cfg w = c_VLESS cfg then vless_cfg w else sanitizeFlow cfg)"
  "sidNode (UpdateConfig L cfg w) = buildSidNode (c_TrafficSIDs cfg)"
  by (auto simp: UpdateConfig_def Let_def split: prod.split option.split)

lemma UpdateConfig_frame [frames, simp]:
  "users (UpdateConfig L cfg w) = users w"
  "userConns (UpdateConfig L cfg w) = userConns w"
  "userTraffic (UpdateConfig L cfg w) = userTraffic w"
  "userQuota (UpdateConfig L cfg w) = userQuota w"
  "userULimiters (UpdateConfig L cfg w) = userULimiters w"
  "userDLimiters (UpdateConfig L cfg w) = userDLimiters w"
  "closed (UpdateConfig L cfg w) = closed w"
  "enableMux (UpdateConfig L cfg w) = enableMux w"
  "nodeID (UpdateConfig L cfg w) = nodeID w"
  "ln (UpdateConfig L cfg w) = ln w"
  by (auto simp: UpdateConfig_def Let_def split: prod.split option.split)

lemma UpdateConfig_closedLns:
  "closedLns (UpdateConfig L cfg w) =
     (if configChanged cfg w then closedLns w \<union> set_option (ln w) else closedLns w)"
  by (auto simp: UpdateConfig_def configChanged_def Let_def split: prod.split option.split)

lemma UpdateConfig_globals:
  "globalULimiter (UpdateConfig L cfg w) = fst (newRateBucket L (c_SpeedLimitUpBps cfg) (allocs w))"
  "globalDLimiter (UpdateConfig L cfg w) =
     fst (newRateBucket L (c_SpeedLimitDownBps cfg) (snd (newRateBucket L (c_SpeedLimitUpBps cfg) (allocs w))))"
  by (auto simp: UpdateConfig_def Let_def split: prod.split option.split)

text \<open>What a configured decryption string means: nothing, or the instance the library builds from the keys.\<close>

definition decFor :: "('l, 'd) lib \<Rightarrow> vless \<Rightarrow> 'd option" where
  "decFor L v =
     (if v_Decryption v = [] \<or> v_Decryption v = ''none'' then None
      else (case parseNfsKeys (v_Decryption v) of
              Inl _ \<Rightarrow> None
            | Inr keys \<Rightarrow> SI_Init L keys (v_XorMode v) (v_SecondsFrom v) (v_SecondsTo v) (v_Padding v)))"

lemma rebuild_decFor [simp]:
  "decryption (rebuildDecryptionLocked L v w) = decFor L v"
  "closedDecs (rebuildDecryptionLocked L v w) = closedDecs w @ (case decryption w of None \<Rightarrow> [] | Some d \<Rightarrow> [d])"
  by (auto simp: rebuildDecryptionLocked_def decFor_def Let_def split: option.split sum.split)

lemma sanitizeFlow_simps [simp]:
  "v_Decryption (sanitizeFlow cfg) = v_Decryption (c_VLESS cfg)"
  "v_XorMode (sanitizeFlow cfg) = v_XorMode (c_VLESS cfg)"
  "v_SecondsFrom (sanitizeFlow cfg) = v_SecondsFrom (c_VLESS cfg)"
  "v_SecondsTo (sanitizeFlow cfg) = v_SecondsTo (c_VLESS cfg)"
  "v_Padding (sanitizeFlow cfg) = v_Padding (c_VLESS cfg)"
  by (simp_all add: sanitizeFlow_def Let_def)

lemma decFor_sanitize [simp]: "decFor L (sanitizeFlow cfg) = decFor L (c_VLESS cfg)"
  by (simp add: decFor_def split: sum.split)

lemma UpdateConfig_decryption:
  "decryption (UpdateConfig L cfg w) =
     (if vless_cfg w = c_VLESS cfg then decryption w else decFor L (c_VLESS cfg))"
  "closedDecs (UpdateConfig L cfg w) =
     (if vless_cfg w = c_VLESS cfg then closedDecs w
      else closedDecs w @ (case decryption w of None \<Rightarrow> [] | Some d \<Rightarrow> [d]))"
  by (simp_all add: UpdateConfig_def Let_def split: prod.split option.split)

lemma sanitizeFlow_flow:
  "v_Flow (sanitizeFlow cfg) =
     (if st_Security (c_Stream cfg) = ''none'' \<or> effNetwork (c_Stream cfg) \<noteq> ''tcp'' then [] else v_Flow (c_VLESS cfg))"
  by (auto simp: sanitizeFlow_def effNetwork_def Let_def)

lemma nfsLoop_eq:
  "nfsLoop ps out =
     (case mapOpt b64Decode (filter (\<lambda>p. p \<noteq> []) ps) of
        None \<Rightarrow> Inl NfsBadBase64
      | Some ks \<Rightarrow> (if out @ ks = [] then Inl NfsNoKeys else Inr (out @ ks)))"
  by (induction ps arbitrary: out) (auto split: option.splits)

lemma buildSidNode_snoc: "buildSidNode (sids @ [ts]) =
    (case sidKey (ts_SID ts) of None \<Rightarrow> buildSidNode sids | Some key \<Rightarrow> (buildSidNode sids)(key \<mapsto> ts_NodeID ts))"
  by (simp add: buildSidNode_def split: option.split)

lemma buildSidNode_last:
  assumes "sidKey (ts_SID ts) = Some key" "\<forall>t \<in> set after. sidKey (ts_SID t) \<noteq> Some key"
  shows "buildSidNode (before @ ts # after) key = Some (ts_NodeID ts)"
  using assms(2)
proof (induction after rule: rev_induct)
  case Nil
  then show ?case using assms(1) buildSidNode_snoc [of before ts] by simp
next
  case (snoc t after)
  then show ?case using buildSidNode_snoc [of "before @ ts # after" t] by (simp split: option.split)
qed

lemma buildSidNode_None:
  "buildSidNode sids key = None \<longleftrightarrow> (\<forall>t \<in> set sids. sidKey (ts_SID t) \<noteq> Some key)"
proof (induction sids rule: rev_induct)
  case Nil
  then show ?case by (simp add: buildSidNode_def)
next
  case (snoc t sids)
  then show ?case by (auto simp: buildSidNode_snoc split: option.splits)
qed

lemma sidKey_length: "sidKey s = Some k \<Longrightarrow> length k = 8"
  by (auto simp: sidKey_def split: option.splits if_splits)

lemma UpdateConfig_wf: "wf_world w \<Longrightarrow> wf_world (UpdateConfig L cfg w)"
proof -
  assume "wf_world w"
  moreover have "length sid = 8" if "buildSidNode sids sid = Some x" for sids sid x
    using that buildSidNode_None [of sids sid] sidKey_length by auto
  ultimately show ?thesis by (auto simp: wf_world_def)
qed

text \<open>The table as a look-up: the last entry whose short ID has the key wins.\<close>

lemma buildSidNode_find:
  "buildSidNode sids key = map_option ts_NodeID (find (\<lambda>t. sidKey (ts_SID t) = Some key) (rev sids))"
proof (induction sids rule: rev_induct)
  case Nil
  then show ?case by (simp add: buildSidNode_def)
next
  case (snoc t sids)
  then show ?case by (simp add: buildSidNode_snoc split: option.split)
qed

lemma sanitizeFlow_supported:
  "st_Security (c_Stream cfg) \<noteq> ''none'' \<Longrightarrow> effNetwork (c_Stream cfg) = ''tcp'' \<Longrightarrow> sanitizeFlow cfg = c_VLESS cfg"
  by (auto simp: sanitizeFlow_def effNetwork_def split: if_splits)

section \<open>Properties\<close>


text \<open>The example configurations: Vision over TCP with TLS, and the same settings over WebSocket.\<close>

definition exStream :: "string \<Rightarrow> string \<Rightarrow> stream" where
  "exStream net sec = zeroStream\<lparr>st_Network := net, st_Security := sec\<rparr>"

definition exConfig :: "string \<Rightarrow> string \<Rightarrow> string \<Rightarrow> config" where
  "exConfig net sec flow = \<lparr>c_Port = 443, c_Stream = exStream net sec, c_VLESS = zeroVLESS\<lparr>v_Flow := flow\<rparr>,
     c_SpeedLimitUpBps = 0, c_SpeedLimitDownBps = 100, c_TrafficSIDs = []\<rparr>"


text \<open>The decryption layer follows the configuration: when no VLESS setting changed it is left alone; when
  one did, the old instance is closed and the new state is what the settings say: none when decryption is off
  or its keys do not decode, else the library's instance for the decoded keys.\<close>

lemma UpdateConfig_decryption_follows:
  "(vless_cfg w = c_VLESS cfg \<longrightarrow>
      decryption (UpdateConfig L cfg w) = decryption w \<and> closedDecs (UpdateConfig L cfg w) = closedDecs w) \<and>
   (vless_cfg w \<noteq> c_VLESS cfg \<longrightarrow>
      decryption (UpdateConfig L cfg w) =
        (if v_Decryption (c_VLESS cfg) \<in> {[], ''none''} then None
         else (case mapOpt b64Decode (filter (\<lambda>p. p \<noteq> []) (splitOn (CHR ''.'') (v_Decryption (c_VLESS cfg)))) of
                 None \<Rightarrow> None
               | Some [] \<Rightarrow> None
               | Some (k # ks) \<Rightarrow> SI_Init L (k # ks) (v_XorMode (c_VLESS cfg)) (v_SecondsFrom (c_VLESS cfg))
                   (v_SecondsTo (c_VLESS cfg)) (v_Padding (c_VLESS cfg)))) \<and>
      closedDecs (UpdateConfig L cfg w) = closedDecs w @ (case decryption w of None \<Rightarrow> [] | Some d \<Rightarrow> [d]))"
  by (auto simp: UpdateConfig_decryption decFor_def parseNfsKeys_def nfsLoop_eq split: option.splits list.splits)

lemma UpdateConfig_decryption_follows_witness:
  "decryption (UpdateConfig exLib (exConfig ''tcp'' ''tls'' XRV) (exNew\<lparr>decryption := Some ()\<rparr>)) = None \<and>
   closedDecs (UpdateConfig exLib (exConfig ''tcp'' ''tls'' XRV) (exNew\<lparr>decryption := Some ()\<rparr>)) = [()]"
  using UpdateConfig_decryption_follows [of "exNew\<lparr>decryption := Some ()\<rparr>" "exConfig ''tcp'' ''tls'' XRV" exLib]
  by (simp add: exConfig_def zeroVLESS_def NewServer_def XRV_def)

text \<open>C26: when a reload changes a VLESS setting, the stored flow is the configured one, except that it is cleared
  when the security is ``none'' or the network is named and is not ``tcp''. When the VLESS settings did not
  change, the stored flow is not looked at: after a reload that supported the flow, one that changes only the
  transport keeps it, on whatever network and security: switching a node from TCP to WebSocket keeps Vision
  allowed.\<close>

theorem UpdateConfig_flow:
  "v_Flow (vless_cfg (UpdateConfig L cfg w)) =
     (if vless_cfg w = c_VLESS cfg then v_Flow (vless_cfg w)
      else if st_Security (c_Stream cfg) = ''none'' \<or> st_Network (c_Stream cfg) \<noteq> [] \<and> st_Network (c_Stream cfg) \<noteq> ''tcp''
      then [] else v_Flow (c_VLESS cfg)) \<and>
   (st_Security (c_Stream cfg) \<noteq> ''none'' \<and> (st_Network (c_Stream cfg) = [] \<or> st_Network (c_Stream cfg) = ''tcp'') \<and>
    c_VLESS cfg' = c_VLESS cfg \<longrightarrow>
      v_Flow (vless_cfg (UpdateConfig L cfg' (UpdateConfig L cfg w))) = v_Flow (c_VLESS cfg))"
  using sanitizeFlow_supported [of cfg] by (auto simp: sanitizeFlow_flow effNetwork_def)

theorem UpdateConfig_flow_witness:
  "v_Flow (vless_cfg (UpdateConfig exLib (exConfig ''ws'' ''tls'' XRV) exNew)) = [] \<and>
   v_Flow (vless_cfg (UpdateConfig exLib (exConfig [] ''tls'' XRV) exNew)) = XRV \<and>
   v_Flow (vless_cfg (UpdateConfig exLib (exConfig ''ws'' ''none'' XRV)
     (UpdateConfig exLib (exConfig ''tcp'' ''tls'' XRV) exNew))) = XRV"
  using UpdateConfig_flow [of exLib "exConfig ''ws'' ''tls'' XRV" exNew]
    UpdateConfig_flow [of exLib "exConfig [] ''tls'' XRV" exNew]
    UpdateConfig_flow [of exLib "exConfig ''tcp'' ''tls'' XRV" exNew "exConfig ''ws'' ''none'' XRV"]
  by (simp add: exConfig_def exStream_def zeroStream_def XRV_def) (simp add: NewServer_def zeroVLESS_def)

text \<open>After a reload the entry point of a client's short ID is the node of the last valid entry of the
  configuration with that short ID, and the node itself when there is none; invalid entries have no effect.\<close>

lemma attribution_follows_config:
  "(c_TrafficSIDs cfg = before @ ts # after \<and> sidKey (ts_SID ts) = Some key \<and>
      (\<forall>t \<in> set after. sidKey (ts_SID t) \<noteq> Some key) \<longrightarrow>
      nodeForShortID key (UpdateConfig L cfg w) = ts_NodeID ts) \<and>
   ((\<forall>t \<in> set (c_TrafficSIDs cfg). sidKey (ts_SID t) \<noteq> Some key) \<longrightarrow>
      nodeForShortID key (UpdateConfig L cfg w) = [])"
  by (auto simp: nodeForShortID_def buildSidNode_last buildSidNode_None [THEN iffD2])

lemma attribution_follows_config_witness:
  "nodeForShortID [171, 205, 0, 0, 0, 0, 0, 0]
     (UpdateConfig exLib ((exConfig [] [] [])\<lparr>c_TrafficSIDs := [\<lparr>ts_NodeID = ''c1'', ts_SID = '' aBcD''\<rparr>, \<lparr>ts_NodeID = ''c2'', ts_SID = ''xy''\<rparr>]\<rparr>) exNew) = ''c1''"
proof -
  let ?t = "\<lparr>ts_NodeID = ''c1'', ts_SID = '' aBcD''\<rparr>" and ?t' = "\<lparr>ts_NodeID = ''c2'', ts_SID = ''xy''\<rparr>"
  have "sidKey (ts_SID ?t) = Some [171, 205, 0, 0, 0, 0, 0, 0]" "sidKey (ts_SID ?t') = None" by code_simp+
  with attribution_follows_config [of "(exConfig [] [] [])\<lparr>c_TrafficSIDs := [?t, ?t']\<rparr>" "[]" ?t "[?t']"
      "[171, 205, 0, 0, 0, 0, 0, 0]" exLib exNew]
  show ?thesis by simp
qed
end
