(* ===== verification/Stream_Settings.thy ===== *)
theory Stream_Settings
  imports Model_Types
begin

text \<open>
  \<open>proxy/vless/server.go\<close>, \<open>buildSecuritySettings\<close> and \<open>structToMap\<close>: the typed security block of a stream
  becomes the opaque settings map the transports take, by a JSON round trip. Every field is tagged
  \<open>omitempty\<close>, so a field with its zero value is not in the map; a number comes back as a \<open>float64\<close>, that is
  rounded to 53 significant bits. Strings are taken as the valid UTF-8 they are when they come from the manager.
\<close>

section \<open>Numbers through JSON\<close>

text \<open>\<open>encoding/json\<close> writes an integer with all its digits and reads a number back as the nearest \<open>float64\<close>, the
  even one of two. \<open>JFloat\<close> holds its value: here always an integer.\<close>

fun bitLen :: "nat \<Rightarrow> nat" where
  "bitLen n = (if n = 0 then 0 else Suc (bitLen (n div 2)))"

declare bitLen.simps [simp del]

definition float64Of :: "int \<Rightarrow> int" where
  "float64Of n =
     (let m = nat \<bar>n\<bar> in
      if m \<le> 2 ^ 53 then n
      else (let e = bitLen m - 53; q = m div 2 ^ e; r = m mod 2 ^ e; half = 2 ^ (e - 1);
                q' = (if r > half \<or> r = half \<and> odd q then q + 1 else q)
            in sgn n * int (q' * 2 ^ e)))"

text \<open>Go's conversion of a \<open>float64\<close> to an integer type is exact in the range of the type and left to the
  implementation outside of it: some function of the value the model says nothing about.\<close>

definition byteOfFloat :: "int \<Rightarrow> byte" where
  "byteOfFloat n = (if 0 \<le> n \<and> n < 256 then word_of_int n else (undefined :: int \<Rightarrow> byte) n)"

definition int64OfFloat :: "int \<Rightarrow> int" where
  "int64OfFloat n = (if is_i64 n then n else wrap64 ((undefined :: int \<Rightarrow> int) n))"

lemma float64Of_exact: "\<bar>n\<bar> \<le> 2 ^ 53 \<Longrightarrow> float64Of n = n"
  by (simp add: float64Of_def Let_def nat_le_iff)

lemma float64Of_zero [simp]: "float64Of 0 = 0"
  by (simp add: float64Of_exact)

lemma float64Of_rounds:
  "float64Of 9007199254740993 = 9007199254740992" "float64Of (- 9007199254740995) = - 9007199254740996"
  "float64Of 9223372036854775807 = 9223372036854775808"
  by (simp_all add: float64Of_def bitLen.simps)

lemma byteOfFloat_exact: "0 \<le> n \<Longrightarrow> n < 256 \<Longrightarrow> byteOfFloat (float64Of n) = word_of_int n"
  by (simp add: float64Of_exact byteOfFloat_def)

lemma byteOfFloat_zero [simp]: "byteOfFloat 0 = 0"
  by (simp add: byteOfFloat_def)

lemma int64OfFloat_exact: "\<bar>n\<bar> \<le> 2 ^ 53 \<Longrightarrow> int64OfFloat (float64Of n) = n"
  by (auto simp: float64Of_exact int64OfFloat_def is_i64_def)

lemma int64OfFloat_zero [simp]: "int64OfFloat 0 = 0"
  by (simp add: int64OfFloat_def is_i64_def)

section \<open>The JSON form of the two structs\<close>

definition strEntry :: "string \<Rightarrow> string \<Rightarrow> (string \<times> jval) list" where
  "strEntry k v = (if v = [] then [] else [(k, JStr v)])"

definition intEntry :: "string \<Rightarrow> int \<Rightarrow> (string \<times> jval) list" where
  "intEntry k v = (if v = 0 then [] else [(k, JFloat (float64Of v))])"

definition boolEntry :: "string \<Rightarrow> bool \<Rightarrow> (string \<times> jval) list" where
  "boolEntry k v = (if v then [(k, JBool True)] else [])"

definition listEntry :: "string \<Rightarrow> string list \<Rightarrow> (string \<times> jval) list" where
  "listEntry k v = (if v = [] then [] else [(k, JArr (map JStr v))])"

definition tlsToMap :: "tls_config \<Rightarrow> (string, jval) fmap" where
  "tlsToMap t = fmap_of_list
     (strEntry ''server_name'' (tls_ServerName t) @ strEntry ''cert_file'' (tls_CertFile t) @
      strEntry ''key_file'' (tls_KeyFile t) @ strEntry ''cert_pem'' (tls_CertPEM t) @
      strEntry ''key_pem'' (tls_KeyPEM t) @ listEntry ''alpn'' (tls_ALPN t) @
      strEntry ''min_version'' (tls_MinVersion t) @ strEntry ''max_version'' (tls_MaxVersion t) @
      boolEntry ''reject_unknown_sni'' (tls_RejectUnknownSNI t))"

definition realityToMap :: "reality_config \<Rightarrow> (string, jval) fmap" where
  "realityToMap r = fmap_of_list
     (boolEntry ''show'' (rl_Show r) @ strEntry ''target'' (rl_Target r) @ intEntry ''xver'' (rl_Xver r) @
      strEntry ''server_name'' (rl_ServerName r) @ strEntry ''private_key'' (rl_PrivateKey r) @
      listEntry ''short_ids'' (rl_ShortIds r) @ strEntry ''min_client_ver'' (rl_MinClientVer r) @
      strEntry ''max_client_ver'' (rl_MaxClientVer r) @ intEntry ''max_time_diff'' (rl_MaxTimeDiff r))"

section \<open>buildSecuritySettings\<close>

definition buildSecuritySettings :: "stream \<Rightarrow> settings" where
  "buildSecuritySettings s =
     (if st_Security s = ''tls'' then
        (case st_TLSConfig s of None \<Rightarrow> None | Some t \<Rightarrow> Some (tlsToMap t))
      else if st_Security s = ''reality'' then
        (case st_RealityConfig s of None \<Rightarrow> None | Some r \<Rightarrow> Some (realityToMap r))
      else None)"

section \<open>Reading a settings map\<close>

text \<open>\<open>raw[k].(string)\<close> with the zero value when the assertion fails, and the other assertions the decoders
  make.\<close>

definition strField :: "(string, jval) fmap \<Rightarrow> string \<Rightarrow> string" where
  "strField raw k = (case fmlookup raw k of Some (JStr v) \<Rightarrow> v | _ \<Rightarrow> [])"

definition strOpt :: "(string, jval) fmap \<Rightarrow> string \<Rightarrow> string option" where
  "strOpt raw k = (case fmlookup raw k of Some (JStr v) \<Rightarrow> Some v | _ \<Rightarrow> None)"

definition boolField :: "(string, jval) fmap \<Rightarrow> string \<Rightarrow> bool" where
  "boolField raw k = (case fmlookup raw k of Some (JBool v) \<Rightarrow> v | _ \<Rightarrow> False)"

definition arrField :: "(string, jval) fmap \<Rightarrow> string \<Rightarrow> jval list" where
  "arrField raw k = (case fmlookup raw k of Some (JArr v) \<Rightarrow> v | _ \<Rightarrow> [])"

fun onlyStrings :: "jval list \<Rightarrow> string list" where
  "onlyStrings [] = []"
| "onlyStrings (JStr s # xs) = s # onlyStrings xs"
| "onlyStrings (_ # xs) = onlyStrings xs"

section \<open>Lemmas\<close>

lemma onlyStrings_map [simp]: "onlyStrings (map JStr xs) = xs"
  by (induction xs) auto

named_theorems entry_simps \<open>looking a key up in the entries of a struct\<close>

lemma map_of_strEntry [entry_simps]: "map_of (strEntry k v @ xs) k' =
    (if k = k' \<and> v \<noteq> [] then Some (JStr v) else map_of xs k')"
  by (simp add: strEntry_def del: map_of_append)

lemma map_of_intEntry [entry_simps]: "map_of (intEntry k v @ xs) k' =
    (if k = k' \<and> v \<noteq> 0 then Some (JFloat (float64Of v)) else map_of xs k')"
  by (simp add: intEntry_def del: map_of_append)

lemma map_of_boolEntry [entry_simps]: "map_of (boolEntry k v @ xs) k' =
    (if k = k' \<and> v then Some (JBool True) else map_of xs k')"
  by (simp add: boolEntry_def del: map_of_append)

lemma map_of_listEntry [entry_simps]: "map_of (listEntry k v @ xs) k' =
    (if k = k' \<and> v \<noteq> [] then Some (JArr (map JStr v)) else map_of xs k')"
  by (simp add: listEntry_def del: map_of_append)

lemmas map_of_last [entry_simps] =
  map_of_intEntry [where xs = "[]", simplified append_Nil2]
  map_of_boolEntry [where xs = "[]", simplified append_Nil2]

lemma tlsToMap_lookup: "fmlookup (tlsToMap t) = map_of
     (strEntry ''server_name'' (tls_ServerName t) @ strEntry ''cert_file'' (tls_CertFile t) @
      strEntry ''key_file'' (tls_KeyFile t) @ strEntry ''cert_pem'' (tls_CertPEM t) @
      strEntry ''key_pem'' (tls_KeyPEM t) @ listEntry ''alpn'' (tls_ALPN t) @
      strEntry ''min_version'' (tls_MinVersion t) @ strEntry ''max_version'' (tls_MaxVersion t) @
      boolEntry ''reject_unknown_sni'' (tls_RejectUnknownSNI t))"
  by (simp only: tlsToMap_def fmlookup_of_list)

lemma realityToMap_lookup: "fmlookup (realityToMap r) = map_of
     (boolEntry ''show'' (rl_Show r) @ strEntry ''target'' (rl_Target r) @ intEntry ''xver'' (rl_Xver r) @
      strEntry ''server_name'' (rl_ServerName r) @ strEntry ''private_key'' (rl_PrivateKey r) @
      listEntry ''short_ids'' (rl_ShortIds r) @ strEntry ''min_client_ver'' (rl_MinClientVer r) @
      strEntry ''max_client_ver'' (rl_MaxClientVer r) @ intEntry ''max_time_diff'' (rl_MaxTimeDiff r))"
  by (simp only: realityToMap_def fmlookup_of_list)

text \<open>What the decoders find for each field of the struct.\<close>

lemma tlsToMap_fields [simp]:
  "strField (tlsToMap t) ''server_name'' = tls_ServerName t"
  "strField (tlsToMap t) ''cert_file'' = tls_CertFile t"
  "strField (tlsToMap t) ''key_file'' = tls_KeyFile t"
  "strField (tlsToMap t) ''cert_pem'' = tls_CertPEM t"
  "strField (tlsToMap t) ''key_pem'' = tls_KeyPEM t"
  "onlyStrings (arrField (tlsToMap t) ''alpn'') = tls_ALPN t"
  "strOpt (tlsToMap t) ''min_version'' = (if tls_MinVersion t = [] then None else Some (tls_MinVersion t))"
  "strOpt (tlsToMap t) ''max_version'' = (if tls_MaxVersion t = [] then None else Some (tls_MaxVersion t))"
  "boolField (tlsToMap t) ''reject_unknown_sni'' = tls_RejectUnknownSNI t"
  by (simp_all add: tlsToMap_lookup strField_def strOpt_def arrField_def boolField_def entry_simps del: map_of_append)

lemma realityToMap_fields [simp]:
  "boolField (realityToMap r) ''show'' = rl_Show r"
  "strOpt (realityToMap r) ''target'' = (if rl_Target r = [] then None else Some (rl_Target r))"
  "fmlookup (realityToMap r) ''xver'' = (if rl_Xver r = 0 then None else Some (JFloat (float64Of (rl_Xver r))))"
  "strOpt (realityToMap r) ''server_name'' = (if rl_ServerName r = [] then None else Some (rl_ServerName r))"
  "strOpt (realityToMap r) ''private_key'' = (if rl_PrivateKey r = [] then None else Some (rl_PrivateKey r))"
  "arrField (realityToMap r) ''short_ids'' = map JStr (rl_ShortIds r)"
  "strField (realityToMap r) ''min_client_ver'' = rl_MinClientVer r"
  "strField (realityToMap r) ''max_client_ver'' = rl_MaxClientVer r"
  "fmlookup (realityToMap r) ''max_time_diff'' = (if rl_MaxTimeDiff r = 0 then None else Some (JFloat (float64Of (rl_MaxTimeDiff r))))"
  by (simp_all add: realityToMap_lookup strField_def strOpt_def arrField_def boolField_def entry_simps del: map_of_append)

end
