(* ===== verification/Security_Tls.thy ===== *)
theory Security_Tls
  imports Stream_Settings
begin

text \<open>
  \<open>transport/security/tls.go\<close>: decoding the opaque settings into a typed configuration, and building the
  \<open>crypto/tls\<close> configuration from it. A protocol version is its 16-bit number. Loading a key pair reads
  files or parses certificates: the two functions of \<open>crypto/tls\<close> that do it are arguments.
\<close>

section \<open>Errors and types\<close>

datatype sec_error =
    NoSettings | UnknownMinVersion string | UnknownMaxVersion string | NoCertificate | LoadFailed
  | RejectedSNI string
  | TargetRequired | XverNotInteger | ServerNameRequired | PrivateKeyRequired | BadKeyBase64 | BadKeyLength
  | BadShortId string | ShortIdTooLong | UnsupportedSecurity string

record tls_typed =
  k_ServerName :: string
  k_CertFile :: string
  k_KeyFile :: string
  k_CertPEM :: string
  k_KeyPEM :: string
  k_ALPN :: "string list"
  k_MinVersion :: int
  k_MaxVersion :: int
  k_RejectUnknownSNI :: bool

text \<open>The fields of \<open>crypto/tls.Config\<close> the code sets; \<open>'c\<close> is a loaded certificate. \<open>GetConfigForClient\<close> is
  applied to the server name of the hello; a nil configuration without error means ``continue''.\<close>

record 'c tls_conf =
  tc_ServerName :: string
  tc_NextProtos :: "string list"
  tc_MinVersion :: int
  tc_MaxVersion :: int
  tc_Certificates :: "'c list"
  tc_GetConfigForClient :: "(string \<Rightarrow> sec_error option) option"

section \<open>DecodeTLSConfig\<close>

definition tlsVersionMap :: "string \<Rightarrow> int option" where
  "tlsVersionMap v =
     (if v = ''1.0'' then Some 769 else if v = ''1.1'' then Some 770
      else if v = ''1.2'' then Some 771 else if v = ''1.3'' then Some 772 else None)"

definition versionField :: "(string, jval) fmap \<Rightarrow> string \<Rightarrow> (string \<Rightarrow> sec_error) \<Rightarrow> sec_error + int" where
  "versionField raw k err =
     (case strOpt raw k of
        None \<Rightarrow> Inr 0
      | Some v \<Rightarrow> (case tlsVersionMap v of None \<Rightarrow> Inl (err v) | Some ver \<Rightarrow> Inr ver))"

definition DecodeTLSConfig :: "settings \<Rightarrow> sec_error + tls_typed" where
  "DecodeTLSConfig raw0 =
     (case raw0 of
        None \<Rightarrow> Inl NoSettings
      | Some raw \<Rightarrow>
          (case versionField raw ''min_version'' UnknownMinVersion of
             Inl e \<Rightarrow> Inl e
           | Inr mn \<Rightarrow>
               (case versionField raw ''max_version'' UnknownMaxVersion of
                  Inl e \<Rightarrow> Inl e
                | Inr mx \<Rightarrow>
                    Inr \<lparr>k_ServerName = strField raw ''server_name'', k_CertFile = strField raw ''cert_file'',
                         k_KeyFile = strField raw ''key_file'', k_CertPEM = strField raw ''cert_pem'',
                         k_KeyPEM = strField raw ''key_pem'', k_ALPN = onlyStrings (arrField raw ''alpn''),
                         k_MinVersion = mn, k_MaxVersion = mx,
                         k_RejectUnknownSNI = boolField raw ''reject_unknown_sni''\<rparr>)))"

section \<open>BuildTLSConfig\<close>

text \<open>Where the certificate comes from: a file pair, else an inline pair.\<close>

datatype cert_source = CertFiles string string | CertInline string string

definition certSource :: "tls_typed \<Rightarrow> cert_source option" where
  "certSource cfg =
     (if k_CertFile cfg \<noteq> [] \<and> k_KeyFile cfg \<noteq> [] then Some (CertFiles (k_CertFile cfg) (k_KeyFile cfg))
      else if k_CertPEM cfg \<noteq> [] \<and> k_KeyPEM cfg \<noteq> [] then Some (CertInline (k_CertPEM cfg) (k_KeyPEM cfg))
      else None)"

definition sniCheck :: "string \<Rightarrow> string \<Rightarrow> sec_error option" where
  "sniCheck expected hello =
     (if expected \<noteq> [] \<and> hello \<noteq> expected then Some (RejectedSNI hello) else None)"

definition BuildTLSConfig :: "(cert_source \<Rightarrow> 'c option) \<Rightarrow> tls_typed \<Rightarrow> sec_error + 'c tls_conf" where
  "BuildTLSConfig load cfg =
     (let tc = \<lparr>tc_ServerName = k_ServerName cfg, tc_NextProtos = k_ALPN cfg, tc_MinVersion = k_MinVersion cfg,
               tc_MaxVersion = k_MaxVersion cfg, tc_Certificates = [], tc_GetConfigForClient = None\<rparr>
      in case certSource cfg of
           None \<Rightarrow> Inl NoCertificate
         | Some src \<Rightarrow>
             (case load src of
                None \<Rightarrow> Inl LoadFailed
              | Some cert \<Rightarrow>
                  (let tc1 = tc\<lparr>tc_Certificates := [cert]\<rparr>;
                       tc2 = (if k_MinVersion cfg = 0 then tc1\<lparr>tc_MinVersion := 771\<rparr> else tc1);
                       tc3 = (if tc_NextProtos tc2 = [] then tc2\<lparr>tc_NextProtos := [''h2'', ''http/1.1'']\<rparr> else tc2)
                   in Inr (if k_RejectUnknownSNI cfg
                           then tc3\<lparr>tc_GetConfigForClient := Some (sniCheck (k_ServerName cfg))\<rparr> else tc3))))"

section \<open>Lemmas\<close>

text \<open>The version a configured name stands for; the empty name is no version.\<close>

definition versionOf :: "string \<Rightarrow> int option" where
  "versionOf v = (if v = [] then Some 0 else tlsVersionMap v)"

lemma versionField_tlsToMap:
  "versionField (tlsToMap t) ''min_version'' e = (case versionOf (tls_MinVersion t) of None \<Rightarrow> Inl (e (tls_MinVersion t)) | Some v \<Rightarrow> Inr v)"
  "versionField (tlsToMap t) ''max_version'' e = (case versionOf (tls_MaxVersion t) of None \<Rightarrow> Inl (e (tls_MaxVersion t)) | Some v \<Rightarrow> Inr v)"
  by (simp_all add: versionField_def versionOf_def split: option.split)

lemma tlsVersionMap_range: "tlsVersionMap v = Some n \<Longrightarrow> 769 \<le> n \<and> n \<le> 772"
  by (auto simp: tlsVersionMap_def split: if_splits)

lemma DecodeTLSConfig_built:
  "DecodeTLSConfig (Some (tlsToMap t)) =
     (case versionOf (tls_MinVersion t) of
        None \<Rightarrow> Inl (UnknownMinVersion (tls_MinVersion t))
      | Some mn \<Rightarrow>
          (case versionOf (tls_MaxVersion t) of
             None \<Rightarrow> Inl (UnknownMaxVersion (tls_MaxVersion t))
           | Some mx \<Rightarrow>
               Inr \<lparr>k_ServerName = tls_ServerName t, k_CertFile = tls_CertFile t, k_KeyFile = tls_KeyFile t,
                    k_CertPEM = tls_CertPEM t, k_KeyPEM = tls_KeyPEM t, k_ALPN = tls_ALPN t,
                    k_MinVersion = mn, k_MaxVersion = mx, k_RejectUnknownSNI = tls_RejectUnknownSNI t\<rparr>))"
  by (simp add: DecodeTLSConfig_def versionField_tlsToMap split: option.split)

section \<open>Properties\<close>

text \<open>The TLS block of a configuration survives the trip through the opaque settings map: it decodes to
  exactly its fields, with the versions as numbers, and fails exactly when a version name is unknown.\<close>

lemma tls_settings_roundtrip:
  assumes "st_Security s = ''tls''" and "st_TLSConfig s = Some t"
  shows "(\<forall>c. DecodeTLSConfig (buildSecuritySettings s) = Inr c \<longleftrightarrow>
      versionOf (tls_MinVersion t) = Some (k_MinVersion c) \<and> versionOf (tls_MaxVersion t) = Some (k_MaxVersion c) \<and>
      c = \<lparr>k_ServerName = tls_ServerName t, k_CertFile = tls_CertFile t, k_KeyFile = tls_KeyFile t,
           k_CertPEM = tls_CertPEM t, k_KeyPEM = tls_KeyPEM t, k_ALPN = tls_ALPN t,
           k_MinVersion = k_MinVersion c, k_MaxVersion = k_MaxVersion c,
           k_RejectUnknownSNI = tls_RejectUnknownSNI t\<rparr>) \<and>
    (isl (DecodeTLSConfig (buildSecuritySettings s)) \<longleftrightarrow>
      versionOf (tls_MinVersion t) = None \<or> versionOf (tls_MaxVersion t) = None)"
  using assms by (auto simp: buildSecuritySettings_def DecodeTLSConfig_built split: option.splits)

definition exTLS :: tls_config where
  "exTLS = \<lparr>tls_ServerName = ''a.io'', tls_CertFile = [], tls_KeyFile = [], tls_CertPEM = ''C'', tls_KeyPEM = ''K'',
     tls_ALPN = [], tls_MinVersion = [], tls_MaxVersion = ''1.3'', tls_RejectUnknownSNI = True\<rparr>"

definition exTLSStream :: stream where
  "exTLSStream = \<lparr>st_Network = ''tcp'', st_Settings = None, st_Security = ''tls'', st_TLSConfig = Some exTLS,
     st_RealityConfig = None\<rparr>"

definition exTLSTyped :: tls_typed where
  "exTLSTyped = \<lparr>k_ServerName = ''a.io'', k_CertFile = [], k_KeyFile = [], k_CertPEM = ''C'', k_KeyPEM = ''K'',
     k_ALPN = [], k_MinVersion = 0, k_MaxVersion = 772, k_RejectUnknownSNI = True\<rparr>"

lemma tls_settings_roundtrip_witness:
  "DecodeTLSConfig (buildSecuritySettings exTLSStream) = Inr exTLSTyped"
  using tls_settings_roundtrip [of exTLSStream exTLS]
  by (simp add: exTLSStream_def exTLSTyped_def) (simp add: exTLS_def versionOf_def tlsVersionMap_def)

text \<open>A server TLS configuration is never built without a certificate, never admits less than the
  configured minimum version (TLS 1.2 when none is configured), always offers a protocol list, and when
  unknown names are to be rejected refuses exactly the hellos for another name.\<close>

lemma BuildTLSConfig_hardened:
  assumes "BuildTLSConfig load cfg = Inr tc"
  shows "(\<exists>src cert. certSource cfg = Some src \<and> load src = Some cert \<and> tc_Certificates tc = [cert]) \<and>
    tc_MinVersion tc = (if k_MinVersion cfg = 0 then 771 else k_MinVersion cfg) \<and>
    tc_MaxVersion tc = k_MaxVersion cfg \<and>
    tc_NextProtos tc = (if k_ALPN cfg = [] then [''h2'', ''http/1.1''] else k_ALPN cfg) \<and>
    (\<forall>hello. k_RejectUnknownSNI cfg \<and> k_ServerName cfg \<noteq> [] \<and> hello \<noteq> k_ServerName cfg \<longleftrightarrow>
       (\<exists>f. tc_GetConfigForClient tc = Some f \<and> f hello \<noteq> None))"
  using assms
  by (auto simp: BuildTLSConfig_def sniCheck_def Let_def split: option.splits if_splits)

lemma BuildTLSConfig_hardened_witness:
  "\<exists>tc. BuildTLSConfig (\<lambda>_. Some ()) exTLSTyped = Inr tc \<and> tc_MinVersion tc = 771"
proof -
  obtain tc where tc: "BuildTLSConfig (\<lambda>_. Some ()) exTLSTyped = Inr tc"
    by (simp add: BuildTLSConfig_def certSource_def exTLSTyped_def)
  from BuildTLSConfig_hardened [OF tc] tc show ?thesis by (simp add: exTLSTyped_def)
qed

end
