(* ===== verification/Security_Reality.thy ===== *)
theory Security_Reality
  imports Security_Tls
begin

text \<open>
  \<open>transport/security/reality.go\<close> and \<open>security.go\<close>: decoding the REALITY settings, building the
  configuration of the REALITY listener, and the selection of the security layer. A Go map used as a set is
  a set; the REALITY listener itself is third-party and only constructed here.
\<close>

section \<open>Types\<close>

record reality_typed =
  y_Show :: bool
  y_Target :: string
  y_Xver :: byte
  y_ServerNames :: "string set"
  y_PrivateKey :: "byte list"
  y_ShortIds :: "byte list set"
  y_MinClientVer :: "byte list"
  y_MaxClientVer :: "byte list"
  y_MaxTimeDiff :: int

section \<open>parseClientVer\<close>

definition digitStep :: "int \<Rightarrow> char \<Rightarrow> int" where
  "digitStep n ch = wrap64 (wrap64 (n * 10) + int (unat (byte_of ch - 48)))"

function parseClientVer :: "string \<Rightarrow> byte list" where
  "parseClientVer [] = []"
| "parseClientVer (ch # cs) =
     (let part = takeWhile (\<lambda>x. x \<noteq> CHR ''.'') (ch # cs);
          rest = dropWhile (\<lambda>x. x \<noteq> CHR ''.'') (ch # cs)
      in word_of_int (foldl digitStep 0 part) # parseClientVer (drop 1 rest))"
  by pat_completeness auto
termination
proof (relation "measure length")
  fix ch :: char and cs part rest :: string
  assume "rest = dropWhile (\<lambda>x. x \<noteq> CHR ''.'') (ch # cs)"
  then have "length rest \<le> length (ch # cs)" by (simp only: length_dropWhile_le)
  then show "(drop 1 rest, ch # cs) \<in> measure length" by simp
qed simp

section \<open>DecodeRealityConfig\<close>

text \<open>\<open>raw["xver"]\<close>: the nested option is the map entry, the value its byte.\<close>

definition xverField :: "jval option \<Rightarrow> sec_error + byte" where
  "xverField v =
     (case v of
        None \<Rightarrow> Inr 0
      | Some (JInt n) \<Rightarrow> Inr (word_of_int n)
      | Some (JFloat n) \<Rightarrow> Inr (byteOfFloat n)
      | Some _ \<Rightarrow> Inl XverNotInteger)"

definition privateKey :: "string option \<Rightarrow> sec_error + byte list" where
  "privateKey v =
     (case v of
        None \<Rightarrow> Inl PrivateKeyRequired
      | Some s \<Rightarrow>
          (case b64Decode s of
             None \<Rightarrow> Inl BadKeyBase64
           | Some key \<Rightarrow> (if length key \<noteq> 32 then Inl BadKeyLength else Inr key)))"

text \<open>One short ID: empty stands for eight zero bytes; otherwise at most eight bytes in hex, filled up with
  zeros.\<close>

definition shortIdKey :: "string \<Rightarrow> sec_error + byte list" where
  "shortIdKey s =
     (if s = [] then Inr (replicate 8 0)
      else (case hexDecode s of
              None \<Rightarrow> Inl (BadShortId s)
            | Some b \<Rightarrow> (if length b > 8 then Inl ShortIdTooLong else Inr (copy_arr 8 b))))"

fun shortIdLoop :: "jval list \<Rightarrow> byte list set \<Rightarrow> sec_error + byte list set" where
  "shortIdLoop [] acc = Inr acc"
| "shortIdLoop (JStr s # items) acc =
     (case shortIdKey s of Inl e \<Rightarrow> Inl e | Inr k \<Rightarrow> shortIdLoop items (insert k acc))"
| "shortIdLoop (_ # items) acc = shortIdLoop items acc"

definition timeDiff :: "jval option \<Rightarrow> int" where
  "timeDiff v = (case v of
      Some (JInt n) \<Rightarrow> wrap64 (n * 1000000)
    | Some (JFloat n) \<Rightarrow> wrap64 (int64OfFloat n * 1000000)
    | _ \<Rightarrow> 0)"

definition verField :: "string \<Rightarrow> byte list" where
  "verField v = (if v \<noteq> [] then parseClientVer v else [])"

definition DecodeRealityConfig :: "settings \<Rightarrow> sec_error + reality_typed" where
  "DecodeRealityConfig raw0 =
     (case raw0 of
        None \<Rightarrow> Inl NoSettings
      | Some raw \<Rightarrow>
          (case strOpt raw ''target'' of
             None \<Rightarrow> Inl TargetRequired
           | Some target \<Rightarrow>
               (case xverField (fmlookup raw ''xver'') of
                  Inl e \<Rightarrow> Inl e
                | Inr xver \<Rightarrow>
                    (case strOpt raw ''server_name'' of
                       None \<Rightarrow> Inl ServerNameRequired
                     | Some name \<Rightarrow>
                         (case privateKey (strOpt raw ''private_key'') of
                            Inl e \<Rightarrow> Inl e
                          | Inr key \<Rightarrow>
                              (case shortIdLoop (arrField raw ''short_ids'') {} of
                                 Inl e \<Rightarrow> Inl e
                               | Inr ids \<Rightarrow>
                                   Inr \<lparr>y_Show = boolField raw ''show'', y_Target = target, y_Xver = xver,
                                        y_ServerNames = {name}, y_PrivateKey = key,
                                        y_ShortIds = (if ids = {} then {replicate 8 0} else ids),
                                        y_MinClientVer = verField (strField raw ''min_client_ver''),
                                        y_MaxClientVer = verField (strField raw ''max_client_ver''),
                                        y_MaxTimeDiff = timeDiff (fmlookup raw ''max_time_diff'')\<rparr>))))))"

section \<open>BuildRealityConfig and the listeners\<close>

record reality_conf =
  rc_Show :: bool
  rc_Type :: string
  rc_Dest :: string
  rc_Xver :: byte
  rc_ServerNames :: "string set"
  rc_PrivateKey :: "byte list"
  rc_ShortIds :: "byte list set"
  rc_MinClientVer :: "byte list"
  rc_MaxClientVer :: "byte list"
  rc_MaxTimeDiff :: int
  rc_SessionTicketsDisabled :: bool

definition BuildRealityConfig :: "reality_typed \<Rightarrow> reality_conf" where
  "BuildRealityConfig cfg =
     \<lparr>rc_Show = y_Show cfg, rc_Type = ''tcp'', rc_Dest = y_Target cfg, rc_Xver = y_Xver cfg,
      rc_ServerNames = y_ServerNames cfg, rc_PrivateKey = y_PrivateKey cfg, rc_ShortIds = y_ShortIds cfg,
      rc_MinClientVer = y_MinClientVer cfg, rc_MaxClientVer = y_MaxClientVer cfg,
      rc_MaxTimeDiff = y_MaxTimeDiff cfg, rc_SessionTicketsDisabled = True\<rparr>"

text \<open>A listener: the raw socket, or one wrapped with a security layer.\<close>

datatype 'c listener = RawListener nat | TlsListener nat "'c tls_conf" | RealityListener nat reality_conf

definition WrapTLS :: "(cert_source \<Rightarrow> 'c option) \<Rightarrow> nat \<Rightarrow> settings \<Rightarrow> sec_error + 'c listener" where
  "WrapTLS load l raw =
     (case DecodeTLSConfig raw of
        Inl e \<Rightarrow> Inl e
      | Inr cfg \<Rightarrow>
          (case BuildTLSConfig load cfg of Inl e \<Rightarrow> Inl e | Inr tc \<Rightarrow> Inr (TlsListener l tc)))"

definition WrapReality :: "nat \<Rightarrow> settings \<Rightarrow> sec_error + 'c listener" where
  "WrapReality l raw =
     (case DecodeRealityConfig raw of
        Inl e \<Rightarrow> Inl e
      | Inr cfg \<Rightarrow> Inr (RealityListener l (BuildRealityConfig cfg)))"

definition Wrap :: "(cert_source \<Rightarrow> 'c option) \<Rightarrow> nat \<Rightarrow> string \<Rightarrow> settings \<Rightarrow> sec_error + 'c listener" where
  "Wrap load l security settings =
     (if security = [] \<or> security = ''none'' then Inr (RawListener l)
      else if security = ''tls'' then WrapTLS load l settings
      else if security = ''reality'' then WrapReality l settings
      else Inl (UnsupportedSecurity security))"

section \<open>Lemmas: versions\<close>

lemma decDigit_byte: "decDigit ch = Some d \<Longrightarrow> int (unat (byte_of ch - 48)) = int d"
proof -
  assume a: "decDigit ch = Some d"
  let ?n = "of_char ch :: nat"
  from a have n: "48 \<le> ?n" "?n \<le> 57" "d = ?n - 48" by (auto simp: decDigit_def Let_def split: if_splits)
  have "byte_of ch - 48 = (of_nat (?n - 48) :: byte)" using n by (simp add: byte_of_def of_nat_diff)
  then have "unat (byte_of ch - 48) = (?n - 48) mod 256" by (simp only: unat_of_nat) simp
  then show ?thesis using n by (simp only:) simp
qed

lemma foldl_digitStep:
  "mapOpt decDigit s = Some ds \<Longrightarrow>
   foldl digitStep (wrap64 (int n)) s = wrap64 (int (foldl (\<lambda>n d. n * 10 + d) n ds))"
proof (induction s arbitrary: n ds)
  case Nil
  then show ?case by simp
next
  case (Cons ch s)
  then obtain d ds' where d: "decDigit ch = Some d" "mapOpt decDigit s = Some ds'" "ds = d # ds'"
    by (auto split: option.splits)
  have "digitStep (wrap64 (int n)) ch = wrap64 (int (n * 10 + d))"
    using decDigit_byte [OF d(1)] by (simp add: digitStep_def)
  with Cons.IH [OF d(2), of "n * 10 + d"] d(3) show ?case by simp
qed

lemma part_value: "n < 256 \<Longrightarrow> word_of_int (foldl digitStep 0 (natDigits n)) = (of_nat n :: byte)"
proof -
  assume n: "n < 256"
  obtain ds where ds: "mapOpt decDigit (natDigits n) = Some ds" "decValue ds = n"
    using natDigits_value by blast
  have "foldl digitStep (wrap64 (int 0)) (natDigits n) = wrap64 (int n)"
    using foldl_digitStep [OF ds(1), of 0] ds(2) by (simp add: decValue_def)
  moreover have "wrap64 (int 0) = 0" "wrap64 (int n) = int n"
    using n by (simp_all add: wrap64_id is_i64_def)
  ultimately show ?thesis by simp
qed

lemma natDigits_no_dot: "CHR ''.'' \<notin> set (natDigits n)"
proof
  assume dot: "CHR ''.'' \<in> set (natDigits n)"
  obtain ds where "mapOpt decDigit (natDigits n) = Some ds" using natDigits_value by blast
  moreover have "mapOpt decDigit s = Some ds \<Longrightarrow> c \<in> set s \<Longrightarrow> decDigit c \<noteq> None" for s ds c
    by (induction s arbitrary: ds) (auto split: option.splits)
  ultimately have "decDigit (CHR ''.'') \<noteq> None" using dot by blast
  then show False by (simp add: decDigit_def)
qed

lemma takeWhile_sep: "x \<notin> set p \<Longrightarrow> takeWhile (\<lambda>c. c \<noteq> x) (p @ x # q) = p"
  by (induction p) auto

lemma dropWhile_sep: "x \<notin> set p \<Longrightarrow> dropWhile (\<lambda>c. c \<noteq> x) (p @ x # q) = x # q"
  by (induction p) auto

lemma parseClientVer_part:
  "p \<noteq> [] \<Longrightarrow> CHR ''.'' \<notin> set p \<Longrightarrow> parseClientVer p = [word_of_int (foldl digitStep 0 p)]"
  "p \<noteq> [] \<Longrightarrow> CHR ''.'' \<notin> set p \<Longrightarrow>
     parseClientVer (p @ CHR ''.'' # q) = word_of_int (foldl digitStep 0 p) # parseClientVer q"
proof -
  assume p: "p \<noteq> []" "CHR ''.'' \<notin> set p"
  then obtain c cs where c: "p = c # cs" by (cases p) auto
  have "takeWhile (\<lambda>x. x \<noteq> CHR ''.'') p = p" "dropWhile (\<lambda>x. x \<noteq> CHR ''.'') p = []"
    using p(2) by (simp_all add: takeWhile_eq_all_conv dropWhile_eq_Nil_conv) (metis, metis)
  then show "parseClientVer p = [word_of_int (foldl digitStep 0 p)]"
    unfolding c by (simp only: parseClientVer.simps Let_def) simp
  show "parseClientVer (p @ CHR ''.'' # q) = word_of_int (foldl digitStep 0 p) # parseClientVer q"
    using takeWhile_sep [OF p(2), of q] dropWhile_sep [OF p(2), of q]
    unfolding c append_Cons by (simp only: parseClientVer.simps Let_def) simp
qed

section \<open>Lemmas: settings\<close>

lemma shortIdLoop_map:
  "shortIdLoop (map JStr ss) acc =
     (case find (\<lambda>s. isl (shortIdKey s)) ss of
        Some s \<Rightarrow> Inl (projl (shortIdKey s))
      | None \<Rightarrow> Inr (acc \<union> (projr \<circ> shortIdKey) ` set ss))"
  by (induction ss arbitrary: acc) (auto split: sum.split option.split)

lemma shortIdLoop_Inr:
  "shortIdLoop (map JStr ss) acc = Inr ids \<longleftrightarrow>
     (\<forall>s \<in> set ss. \<exists>k. shortIdKey s = Inr k) \<and> ids = acc \<union> {k. \<exists>s \<in> set ss. shortIdKey s = Inr k}"
proof (induction ss arbitrary: acc)
  case Nil
  then show ?case by auto
next
  case (Cons s ss)
  then show ?case by (cases "shortIdKey s") auto
qed

lemma privateKey_Inr: "privateKey v = Inr key \<longleftrightarrow> (\<exists>s. v = Some s \<and> b64Decode s = Some key \<and> length key = 32)"
  by (auto simp: privateKey_def split: option.splits)

lemma DecodeRealityConfig_built:
  "DecodeRealityConfig (Some (realityToMap r)) = Inr c \<longleftrightarrow>
     rl_Target r \<noteq> [] \<and> rl_ServerName r \<noteq> [] \<and> rl_PrivateKey r \<noteq> [] \<and>
     (\<exists>key ids. privateKey (Some (rl_PrivateKey r)) = Inr key \<and> shortIdLoop (map JStr (rl_ShortIds r)) {} = Inr ids \<and>
        c = \<lparr>y_Show = rl_Show r, y_Target = rl_Target r, y_Xver = byteOfFloat (float64Of (rl_Xver r)),
             y_ServerNames = {rl_ServerName r}, y_PrivateKey = key,
             y_ShortIds = (if ids = {} then {replicate 8 0} else ids),
             y_MinClientVer = parseClientVer (rl_MinClientVer r), y_MaxClientVer = parseClientVer (rl_MaxClientVer r),
             y_MaxTimeDiff = wrap64 (int64OfFloat (float64Of (rl_MaxTimeDiff r)) * 1000000)\<rparr>)"
proof -
  have xv: "xverField (if rl_Xver r = 0 then None else Some (JFloat (float64Of (rl_Xver r)))) = Inr (byteOfFloat (float64Of (rl_Xver r)))"
    by (simp add: xverField_def)
  have td: "timeDiff (if rl_MaxTimeDiff r = 0 then None else Some (JFloat (float64Of (rl_MaxTimeDiff r)))) = wrap64 (int64OfFloat (float64Of (rl_MaxTimeDiff r)) * 1000000)"
    by (simp add: timeDiff_def wrap64_def)
  have vf: "verField v = parseClientVer v" for v by (simp add: verField_def)
  have pk: "privateKey None = Inl PrivateKeyRequired" by (simp add: privateKey_def)
  show ?thesis
    unfolding DecodeRealityConfig_def option.case realityToMap_fields xv td vf
    by (auto simp: pk split: sum.splits if_splits)
qed

lemma shortIds_empty:
  "\<forall>i \<in> set is. \<exists>k. shortIdKey i = Inr k \<Longrightarrow> {k. \<exists>i \<in> set is. shortIdKey i = Inr k} = {} \<longleftrightarrow> is = []"
  by (cases "is") auto

section \<open>Properties\<close>

text \<open>C33: the REALITY block of a configuration through the opaque settings map. It is accepted exactly when it has a
  target, a server name, a private key of 32 bytes and only valid short IDs; the PROXY protocol version and the
  client versions are not checked. An accepted block decodes to its fields: the one server name, the key, the short
  IDs padded to eight bytes (the empty one alone when none is given), the PROXY protocol version when it is a byte,
  and the clock tolerance in nanoseconds when it is at most \<open>2 ^ 53\<close> milliseconds (a larger one is rounded on
  its way through JSON).\<close>

theorem reality_settings_roundtrip:
  assumes "st_Security s = ''reality''" and "st_RealityConfig s = Some r"
  shows "((\<exists>c. DecodeRealityConfig (buildSecuritySettings s) = Inr c) \<longleftrightarrow>
      rl_Target r \<noteq> [] \<and> rl_ServerName r \<noteq> [] \<and>
      rl_PrivateKey r \<noteq> [] \<and> (\<exists>key. b64Decode (rl_PrivateKey r) = Some key \<and> length key = 32) \<and>
      (\<forall>i \<in> set (rl_ShortIds r). \<exists>k. shortIdKey i = Inr k)) \<and>
    (DecodeRealityConfig (buildSecuritySettings s) = Inr c \<and> 0 \<le> rl_Xver r \<and> rl_Xver r < 256 \<and> \<bar>rl_MaxTimeDiff r\<bar> \<le> 2 ^ 53 \<longrightarrow>
      b64Decode (rl_PrivateKey r) = Some (y_PrivateKey c) \<and> length (y_PrivateKey c) = 32 \<and>
      c = \<lparr>y_Show = rl_Show r, y_Target = rl_Target r, y_Xver = word_of_int (rl_Xver r),
         y_ServerNames = {rl_ServerName r}, y_PrivateKey = y_PrivateKey c,
         y_ShortIds = (if rl_ShortIds r = [] then {replicate 8 0}
                       else {k. \<exists>i \<in> set (rl_ShortIds r). shortIdKey i = Inr k}),
         y_MinClientVer = parseClientVer (rl_MinClientVer r), y_MaxClientVer = parseClientVer (rl_MaxClientVer r),
         y_MaxTimeDiff = wrap64 (rl_MaxTimeDiff r * 1000000)\<rparr>)"
proof -
  have d: "DecodeRealityConfig (buildSecuritySettings s) = DecodeRealityConfig (Some (realityToMap r))"
    using assms by (simp add: buildSecuritySettings_def)
  note b = DecodeRealityConfig_built [of r, unfolded shortIdLoop_Inr privateKey_Inr]
  show ?thesis
    unfolding d b by (auto simp: shortIds_empty byteOfFloat_exact int64OfFloat_exact split: if_splits)
qed

definition exReality :: reality_config where
  "exReality = \<lparr>rl_Show = False, rl_Target = ''a.io:443'', rl_Xver = 1, rl_ServerName = ''a.io'',
     rl_PrivateKey = replicate 43 (CHR ''A''), rl_ShortIds = [''aBcD''], rl_MinClientVer = ''1.8.24'',
     rl_MaxClientVer = [], rl_MaxTimeDiff = 5\<rparr>"

definition exRealityStream :: stream where
  "exRealityStream = \<lparr>st_Network = ''tcp'', st_Settings = None, st_Security = ''reality'', st_TLSConfig = None,
     st_RealityConfig = Some exReality\<rparr>"

definition exRealityTyped :: reality_typed where
  "exRealityTyped = \<lparr>y_Show = False, y_Target = ''a.io:443'', y_Xver = 1, y_ServerNames = {''a.io''},
     y_PrivateKey = replicate 32 0, y_ShortIds = {[171, 205, 0, 0, 0, 0, 0, 0]}, y_MinClientVer = [1, 8, 24],
     y_MaxClientVer = [], y_MaxTimeDiff = 5000000\<rparr>"

theorem reality_settings_roundtrip_witness:
  "DecodeRealityConfig (buildSecuritySettings exRealityStream) = Inr exRealityTyped"
proof -
  have key: "b64Decode (rl_PrivateKey exReality) = Some (replicate 32 0)"
    and sid: "shortIdKey ''aBcD'' = Inr [171, 205, 0, 0, 0, 0, 0, 0]"
    and ver: "parseClientVer (rl_MinClientVer exReality) = [1, 8, 24]" "parseClientVer (rl_MaxClientVer exReality) = []"
    and td: "wrap64 (rl_MaxTimeDiff exReality * 1000000) = 5000000"
    by code_simp+
  have f: "rl_Target exReality \<noteq> []" "rl_ServerName exReality \<noteq> []" "rl_PrivateKey exReality \<noteq> []"
    "rl_ShortIds exReality = [''aBcD'']" "0 \<le> rl_Xver exReality" "rl_Xver exReality < 256" "\<bar>rl_MaxTimeDiff exReality\<bar> \<le> 2 ^ 53"
    by (simp_all add: exReality_def)
  have st: "st_Security exRealityStream = ''reality''" "st_RealityConfig exRealityStream = Some exReality"
    by (simp_all add: exRealityStream_def)
  note a = reality_settings_roundtrip [OF st]
  have "\<exists>key. b64Decode (rl_PrivateKey exReality) = Some key \<and> length key = 32" using key by simp
  with a [THEN conjunct1] f sid obtain c where c: "DecodeRealityConfig (buildSecuritySettings exRealityStream) = Inr c" by auto
  with a [THEN conjunct2] f have d: "b64Decode (rl_PrivateKey exReality) = Some (y_PrivateKey c)"
    "c = \<lparr>y_Show = rl_Show exReality, y_Target = rl_Target exReality, y_Xver = word_of_int (rl_Xver exReality),
         y_ServerNames = {rl_ServerName exReality}, y_PrivateKey = y_PrivateKey c,
         y_ShortIds = (if rl_ShortIds exReality = [] then {replicate 8 0}
                       else {k. \<exists>i \<in> set (rl_ShortIds exReality). shortIdKey i = Inr k}),
         y_MinClientVer = parseClientVer (rl_MinClientVer exReality), y_MaxClientVer = parseClientVer (rl_MaxClientVer exReality),
         y_MaxTimeDiff = wrap64 (rl_MaxTimeDiff exReality * 1000000)\<rparr>" by blast+
  have "y_PrivateKey c = replicate 32 0" using d(1) key by simp
  then have "c = exRealityTyped"
    by (subst d(2)) (simp add: ver td f(4) sid exRealityTyped_def, simp add: exReality_def)
  with c show ?thesis by simp
qed

text \<open>A client version written as decimal components is parsed to exactly those components.\<close>

lemma parseClientVer_components:
  assumes "xs \<noteq> []" and "\<forall>x \<in> set xs. x < 256"
  shows "parseClientVer (join ''.'' (map (\<lambda>x. itoa (int x)) xs)) = map of_nat xs"
  using assms
proof (induction xs)
  case (Cons x xs)
  have i: "itoa (int x) = natDigits x" by (simp add: itoa_def)
  have ne: "natDigits x \<noteq> []" using natDigits_head [of x] by auto
  note part = parseClientVer_part [OF ne natDigits_no_dot]
  show ?case
  proof (cases xs)
    case Nil
    then show ?thesis using Cons.prems part(1) by (simp add: i part_value)
  next
    case (Cons y ys)
    then show ?thesis using Cons.IH Cons.prems part(2) by (simp add: i part_value)
  qed
qed simp

lemma parseClientVer_components_witness:
  "parseClientVer (join ''.'' (map (\<lambda>x. itoa (int x)) [1, 8, 24])) = [1, 8, 24]"
proof -
  have "parseClientVer (join ''.'' (map (\<lambda>x. itoa (int x)) [1, 8, 24])) = map of_nat [1, 8, 24]"
    by (rule parseClientVer_components) simp_all
  then show ?thesis by (simp only: list.map) simp
qed

lemma DecodeTLS_min: "DecodeTLSConfig raw = Inr cfg \<Longrightarrow> k_MinVersion cfg = 0 \<or> 769 \<le> k_MinVersion cfg"
  using tlsVersionMap_range
  by (fastforce simp: DecodeTLSConfig_def versionField_def split: option.splits sum.splits)

lemma DecodeReality_ok:
  "DecodeRealityConfig raw = Inr cfg \<Longrightarrow>
     length (y_PrivateKey cfg) = 32 \<and> y_ServerNames cfg \<noteq> {} \<and> y_ShortIds cfg \<noteq> {}"
  by (auto simp: DecodeRealityConfig_def privateKey_def split: option.splits sum.splits if_splits)

text \<open>The security layer is never downgraded: a listener comes back unwrapped exactly when the security
  is empty or ``none''; for ``tls'' it has a certificate and a minimum version (1.2 unless an older one is
  configured), for ``reality'' a 32-byte key and at least one server name and short ID; anything else, and
  every invalid setting, is an error.\<close>

lemma Wrap_no_downgrade:
  assumes "Wrap load l sec raw = Inr lsn"
  shows "((\<exists>n. lsn = RawListener n) \<longleftrightarrow> sec = [] \<or> sec = ''none'') \<and>
    (sec = ''tls'' \<longrightarrow> (\<exists>tc. lsn = TlsListener l tc \<and> tc_Certificates tc \<noteq> [] \<and> 769 \<le> tc_MinVersion tc)) \<and>
    (sec = ''reality'' \<longrightarrow> (\<exists>rc. lsn = RealityListener l rc \<and> length (rc_PrivateKey rc) = 32 \<and>
       rc_ServerNames rc \<noteq> {} \<and> rc_ShortIds rc \<noteq> {} \<and> rc_SessionTicketsDisabled rc)) \<and>
    sec \<in> {[], ''none'', ''tls'', ''reality''}"
proof -
  consider "sec = [] \<or> sec = ''none''" | "sec = ''tls''" | "sec = ''reality''"
    using assms by (auto simp: Wrap_def split: if_splits)
  then show ?thesis
  proof cases
    case 2
    with assms obtain cfg tc where d: "DecodeTLSConfig raw = Inr cfg" "BuildTLSConfig load cfg = Inr tc" "lsn = TlsListener l tc"
      by (auto simp: Wrap_def WrapTLS_def split: sum.splits)
    have "769 \<le> tc_MinVersion tc" "tc_Certificates tc \<noteq> []"
      using d(2) DecodeTLS_min [OF d(1)]
      by (auto simp: BuildTLSConfig_def Let_def split: option.splits if_splits)
    with 2 d show ?thesis by auto
  next
    case 3
    with assms obtain cfg where "DecodeRealityConfig raw = Inr cfg" "lsn = RealityListener l (BuildRealityConfig cfg)"
      by (auto simp: Wrap_def WrapReality_def split: sum.splits)
    with 3 DecodeReality_ok show ?thesis by (auto simp: BuildRealityConfig_def)
  qed (use assms in \<open>auto simp: Wrap_def\<close>)
qed

lemma Wrap_no_downgrade_witness:
  "\<exists>lsn. Wrap (\<lambda>_. Some ()) 3 ''tls'' (buildSecuritySettings exTLSStream) = Inr lsn \<and> (\<nexists>n. lsn = RawListener n)"
proof -
  have "DecodeTLSConfig (buildSecuritySettings exTLSStream) = Inr exTLSTyped"
    by (simp add: exTLSStream_def buildSecuritySettings_def DecodeTLSConfig_built exTLSTyped_def)
      (simp add: exTLS_def versionOf_def tlsVersionMap_def)
  then obtain lsn where w: "Wrap (\<lambda>_. Some ()) 3 ''tls'' (buildSecuritySettings exTLSStream) = Inr lsn"
    by (simp add: Wrap_def WrapTLS_def BuildTLSConfig_def certSource_def exTLSTyped_def)
  from Wrap_no_downgrade [OF w] w show ?thesis by auto
qed
end
