(* ===== verification/Attribution.thy ===== *)
theory Attribution
  imports Config_Update Security_Reality
begin

text \<open>
  Entry-point attribution across components: the short IDs a REALITY listener accepts
  (\<open>transport/security/reality.go\<close>), the table \<open>UpdateConfig\<close> builds from the configuration
  (\<open>server.go\<close>) and the lookup \<open>handleConnection\<close> makes for an accepted connection (\<open>handler.go\<close>) use two
  different decoders; they agree.
\<close>

lemma hexDecode_digits: "hexDecode s = Some b \<Longrightarrow> c \<in> set s \<Longrightarrow> hexDigit c \<noteq> None"
  by (induction s arbitrary: b rule: hexDecode.induct) (auto split: option.splits)

lemma hexDigit_not_space: "hexDigit c \<noteq> None \<Longrightarrow> \<not> isSpace c"
  by (auto simp: hexDigit_def isSpace_def Let_def split: if_splits)

lemma dropWhile_none: "\<forall>c \<in> set s. \<not> P c \<Longrightarrow> dropWhile P s = s"
  by (cases s) auto

lemma trimSpace_hex: "hexDecode s = Some b \<Longrightarrow> trimSpace s = s"
  using hexDecode_digits hexDigit_not_space
  by (metis dropWhile_none rev_rev_ident set_rev trimSpace_def)

text \<open>A short ID the listener accepts has the same key in the attribution table, unless it is empty.\<close>

lemma sidKey_shortIdKey:
  assumes "shortIdKey s = Inr k" and "s \<noteq> []"
  shows "sidKey s = Some k"
proof -
  from assms obtain b where b: "hexDecode s = Some b" "length b \<le> 8" "k = copy_arr 8 b"
    by (auto simp: shortIdKey_def split: option.splits if_splits)
  have "length b \<noteq> 0" using hexDecode_length [OF b(1)] assms(2) by auto
  with b show ?thesis by (simp add: sidKey_def trimSpace_hex hexDecode_toLower)
qed

lemma sidKey_empty: "sidKey [] = None"
  by (simp add: sidKey_def trimSpace_def toLower_def)

section \<open>Property\<close>

text \<open>C29: a client that connects with a short ID the listener accepts is attributed to the entry point the
  configuration assigns to that short ID (the last assignment wins), and to the node itself when it assigns
  none; the empty short ID always belongs to the node itself unless another one pads to zeros.\<close>

theorem accepted_short_id_attributed:
  assumes "shortIdKey s = Inr k" and "s \<noteq> []"
  shows "(\<forall>before ts after. c_TrafficSIDs cfg = before @ ts # after \<and> ts_SID ts = s \<and>
      (\<forall>t \<in> set after. sidKey (ts_SID t) \<noteq> Some k) \<longrightarrow>
      entryNodeOf (RealityConn k) (UpdateConfig L cfg w) = ts_NodeID ts) \<and>
    ((\<forall>t \<in> set (c_TrafficSIDs cfg). sidKey (ts_SID t) \<noteq> Some k) \<longrightarrow>
      entryNodeOf (RealityConn k) (UpdateConfig L cfg w) = [])"
  using sidKey_shortIdKey [OF assms]
  by (auto simp: entryNodeOf_def nodeForShortID_def buildSidNode_last buildSidNode_None [THEN iffD2])

theorem accepted_short_id_attributed_witness:
  "entryNodeOf (RealityConn [171, 205, 0, 0, 0, 0, 0, 0])
     (UpdateConfig exLib ((exConfig [] [] [])\<lparr>c_TrafficSIDs := [\<lparr>ts_NodeID = ''c1'', ts_SID = ''abCd''\<rparr>]\<rparr>) exNew) = ''c1''"
proof -
  have k: "shortIdKey ''abCd'' = Inr [171, 205, 0, 0, 0, 0, 0, 0]" by code_simp
  show ?thesis
    using accepted_short_id_attributed [OF k, of "(exConfig [] [] [])\<lparr>c_TrafficSIDs := [\<lparr>ts_NodeID = ''c1'', ts_SID = ''abCd''\<rparr>]\<rparr>" exLib exNew]
    by (force dest: spec [of _ "[]"])
qed

end
