(* ===== verification/Chan_Listener.thy ===== *)
theory Chan_Listener
  imports Server_State "HOL-Library.Multiset"
begin

text \<open>
  \<open>transport/xraybridge/bridge.go\<close>, \<open>ChanListener\<close>: xray-core delivers connections by calling \<open>AddConn\<close>, the
  server takes them with \<open>Accept\<close>; between the two is a channel of capacity 32 and a channel that is closed
  when the listener is. The goroutines inside \<open>AddConn\<close> are the list \<open>pending\<close>. The acceptor is the loop of
  \<open>Server.Start\<close>, which stops at the first error of \<open>Accept\<close>.
\<close>

section \<open>State and steps\<close>

record chan_listener =
  cl_pending :: "conn list"
  cl_ch :: "conn list"
  cl_closed :: bool
  cl_innerClosed :: bool
  cl_accepted :: "conn list"
  cl_closedConns :: "conn list"
  cl_stopped :: bool

definition chanCap :: nat where "chanCap = 32"

definition NewChanListener :: chan_listener where
  "NewChanListener = \<lparr>cl_pending = [], cl_ch = [], cl_closed = False, cl_innerClosed = False,
     cl_accepted = [], cl_closedConns = [], cl_stopped = False\<rparr>"

text \<open>The two cases of the \<open>select\<close> in \<open>AddConn\<close>: the send when the channel has room, and the close when the
  listener is closed. Both can be possible; then either is taken.\<close>

definition addConnSend :: "conn \<Rightarrow> chan_listener \<Rightarrow> chan_listener option" where
  "addConnSend c l =
     (if c \<in> set (cl_pending l) \<and> length (cl_ch l) < chanCap
      then Some (l\<lparr>cl_pending := remove1 c (cl_pending l), cl_ch := cl_ch l @ [c]\<rparr>) else None)"

definition addConnRefuse :: "conn \<Rightarrow> chan_listener \<Rightarrow> chan_listener option" where
  "addConnRefuse c l =
     (if c \<in> set (cl_pending l) \<and> cl_closed l
      then Some (l\<lparr>cl_pending := remove1 c (cl_pending l), cl_closedConns := cl_closedConns l @ [c]\<rparr>) else None)"

text \<open>The two cases of the \<open>select\<close> in \<open>Accept\<close>.\<close>

definition acceptConn :: "chan_listener \<Rightarrow> chan_listener option" where
  "acceptConn l =
     (if cl_stopped l then None
      else (case cl_ch l of
              [] \<Rightarrow> None
            | c # cs \<Rightarrow> Some (l\<lparr>cl_ch := cs, cl_accepted := cl_accepted l @ [c]\<rparr>)))"

definition acceptClosed :: "chan_listener \<Rightarrow> chan_listener option" where
  "acceptClosed l = (if cl_stopped l \<or> \<not> cl_closed l then None else Some (l\<lparr>cl_stopped := True\<rparr>))"

definition closeListener :: "chan_listener \<Rightarrow> chan_listener" where
  "closeListener l = (if cl_closed l then l else l\<lparr>cl_closed := True, cl_innerClosed := True\<rparr>)"

datatype cl_event = Arrive conn | Send conn | Refuse conn | Take | TakeError | CloseIt

inductive cl_step :: "cl_event \<Rightarrow> chan_listener \<Rightarrow> chan_listener \<Rightarrow> bool" where
  arrive: "cl_step (Arrive c) l (l\<lparr>cl_pending := cl_pending l @ [c]\<rparr>)"
| send: "addConnSend c l = Some l' \<Longrightarrow> cl_step (Send c) l l'"
| refuse: "addConnRefuse c l = Some l' \<Longrightarrow> cl_step (Refuse c) l l'"
| accept: "acceptConn l = Some l' \<Longrightarrow> cl_step Take l l'"
| acceptErr: "acceptClosed l = Some l' \<Longrightarrow> cl_step TakeError l l'"
| close: "cl_step CloseIt l (closeListener l)"

inductive_cases cl_stepE: "cl_step e l l'"

inductive_simps cl_step_simps:
  "cl_step (Arrive c) l l'" "cl_step (Send c) l l'" "cl_step (Refuse c) l l'" "cl_step Take l l'"
  "cl_step TakeError l l'" "cl_step CloseIt l l'"

text \<open>A run, with its events in order.\<close>

inductive cl_run :: "chan_listener \<Rightarrow> cl_event list \<Rightarrow> chan_listener \<Rightarrow> bool" where
  nil: "cl_run l [] l"
| snoc: "cl_run l es l' \<Longrightarrow> cl_step e l' l'' \<Longrightarrow> cl_run l (es @ [e]) l''"

lemmas cl_defs = addConnSend_def addConnRefuse_def acceptConn_def acceptClosed_def closeListener_def

section \<open>Invariant\<close>

text \<open>The queue never exceeds the channel; a stopped acceptor means a closed listener; a refused connection is
  one the listener closed after it was closed itself.\<close>

definition cl_inv :: "chan_listener \<Rightarrow> bool" where
  "cl_inv l \<longleftrightarrow> length (cl_ch l) \<le> chanCap \<and> (cl_stopped l \<longrightarrow> cl_closed l) \<and>
     (cl_closed l \<longleftrightarrow> cl_innerClosed l) \<and> (cl_closedConns l \<noteq> [] \<longrightarrow> cl_closed l)"

lemma cl_step_inv: "cl_step e l l' \<Longrightarrow> cl_inv l \<Longrightarrow> cl_inv l'"
  by (erule cl_stepE) (auto simp: cl_inv_def cl_defs split: if_splits list.splits)

lemma cl_run_inv: "cl_run l es l' \<Longrightarrow> cl_inv l \<Longrightarrow> cl_inv l'"
  by (induction rule: cl_run.induct) (auto intro: cl_step_inv)

lemma NewChanListener_inv: "cl_inv NewChanListener"
  by (simp add: cl_inv_def NewChanListener_def)

text \<open>Where the connections handed to the listener are: nowhere lost, nowhere twice.\<close>

definition inFlight :: "chan_listener \<Rightarrow> conn multiset" where
  "inFlight l = mset (cl_pending l) + mset (cl_ch l) + mset (cl_accepted l) + mset (cl_closedConns l)"

fun arrivals :: "cl_event list \<Rightarrow> conn list" where
  "arrivals [] = []"
| "arrivals (Arrive c # es) = c # arrivals es"
| "arrivals (_ # es) = arrivals es"

fun sends :: "cl_event list \<Rightarrow> conn list" where
  "sends [] = []"
| "sends (Send c # es) = c # sends es"
| "sends (_ # es) = sends es"

lemma arrivals_append [simp]: "arrivals (xs @ ys) = arrivals xs @ arrivals ys"
  by (induction xs rule: arrivals.induct) auto

lemma sends_append [simp]: "sends (xs @ ys) = sends xs @ sends ys"
  by (induction xs rule: sends.induct) auto

lemma cl_step_conserves: "cl_step e l l' \<Longrightarrow> inFlight l' = inFlight l + mset (arrivals [e])"
  by (erule cl_stepE) (auto simp: inFlight_def cl_defs split: if_splits list.splits)

text \<open>The order of delivery is the order of the sends.\<close>

lemma cl_step_fifo: "cl_step e l l' \<Longrightarrow> cl_accepted l' @ cl_ch l' = cl_accepted l @ cl_ch l @ sends [e]"
  by (erule cl_stepE) (auto simp: cl_defs split: if_splits list.splits)

lemma cl_run_conserves: "cl_run l es l' \<Longrightarrow> inFlight l' = inFlight l + mset (arrivals es)"
  by (induction rule: cl_run.induct) (simp_all add: cl_step_conserves)

lemma cl_run_fifo: "cl_run l es l' \<Longrightarrow> cl_accepted l' @ cl_ch l' = cl_accepted l @ cl_ch l @ sends es"
  by (induction rule: cl_run.induct) (simp_all add: cl_step_fifo)

lemma cl_step_stopped:
  assumes "cl_step e l l'" "cl_stopped l"
  shows "cl_stopped l' \<and> cl_accepted l' = cl_accepted l \<and> (\<exists>cs. cl_ch l' = cl_ch l @ cs)"
  using assms by (auto elim!: cl_stepE simp: cl_defs split: if_splits list.splits)

lemma cl_run_stopped:
  assumes "cl_run l es l'" "cl_stopped l"
  shows "cl_stopped l' \<and> cl_accepted l' = cl_accepted l \<and> (\<exists>cs. cl_ch l' = cl_ch l @ cs)"
  using assms
proof (induction rule: cl_run.induct)
  case (snoc l es l' e l'')
  then show ?case using cl_step_stopped [of e l' l''] by fastforce
qed simp

section \<open>Properties\<close>

text \<open>C34: over any interleaving of arriving connections, the acceptor and the close, the channel listener loses
  and duplicates no connection: each one handed to \<open>AddConn\<close> is waiting, in the channel, accepted or closed;
  the channel holds at most 32, delivery is in the order of the sends, and a connection is refused only when
  the listener has been closed.\<close>

theorem chan_listener_conserves:
  assumes "cl_run NewChanListener es l"
  shows "inFlight l = mset (arrivals es) \<and> length (cl_ch l) \<le> 32 \<and>
    cl_accepted l @ cl_ch l = sends es \<and> (cl_closedConns l \<noteq> [] \<longrightarrow> cl_closed l)"
  using cl_run_conserves [OF assms] cl_run_fifo [OF assms] cl_run_inv [OF assms NewChanListener_inv]
  by (auto simp: NewChanListener_def inFlight_def cl_inv_def chanCap_def)

text \<open>An example run: two connections arrive, the listener is closed, the acceptor sees it before the second
  connection.\<close>

definition exEvents :: "cl_event list" where
  "exEvents = [Arrive 1, Arrive 2, Send 1, Take, Send 2, CloseIt, TakeError]"

definition exStopped :: chan_listener where
  "exStopped = \<lparr>cl_pending = [], cl_ch = [2], cl_closed = True, cl_innerClosed = True, cl_accepted = [1],
     cl_closedConns = [], cl_stopped = True\<rparr>"

lemma cl_runI: "cl_run l es l' \<Longrightarrow> cl_step e l' l'' \<Longrightarrow> es' = es @ [e] \<Longrightarrow> cl_run l es' l''"
  by (auto intro: cl_run.intros)

lemma exRun: "cl_run NewChanListener exEvents exStopped"
proof -
  show ?thesis
    unfolding exEvents_def
    by (rule cl_runI, rule cl_runI, rule cl_runI, rule cl_runI, rule cl_runI, rule cl_runI, rule cl_runI,
        rule cl_run.nil)
      (auto simp: cl_step_simps cl_defs NewChanListener_def exStopped_def chanCap_def)
qed

theorem chan_listener_conserves_witness:
  "inFlight exStopped = {#1, 2#}"
  using chan_listener_conserves [OF exRun] by (simp add: exEvents_def)

text \<open>C35: a connection that is in the channel when the acceptor learns of the close stays there: nothing ever
  accepts or closes it afterwards, so its socket is leaked.\<close>

theorem closed_listener_leaks:
  assumes "cl_run NewChanListener es l" "cl_stopped l" "cl_run l es' l'"
  shows "\<exists>cs. cl_ch l' = cl_ch l @ cs \<and> cl_accepted l' = cl_accepted l \<and>
    (\<forall>c. count (mset (arrivals (es @ es'))) c = 1 \<longrightarrow> c \<in> set (cl_ch l) \<longrightarrow> c \<notin> set (cl_accepted l') \<union> set (cl_closedConns l'))"
proof -
  obtain cs where cs: "cl_ch l' = cl_ch l @ cs" "cl_accepted l' = cl_accepted l"
    using cl_run_stopped [OF assms(3,2)] by blast
  have fl: "inFlight l' = mset (arrivals (es @ es'))"
    using cl_run_conserves [OF assms(1)] cl_run_conserves [OF assms(3)] by (simp add: NewChanListener_def inFlight_def)
  have "c \<notin> set (cl_accepted l') \<union> set (cl_closedConns l')"
    if "count (mset (arrivals (es @ es'))) c = 1" "c \<in> set (cl_ch l)" for c
  proof -
    have "0 < count (mset (cl_ch l')) c" using that(2) by (simp add: cs(1) count_mset_0_iff count_greater_zero_iff)
    moreover have "count (inFlight l') c = 1" using that(1) fl by simp
    ultimately have "count (mset (cl_accepted l')) c = 0 \<and> count (mset (cl_closedConns l')) c = 0"
      unfolding inFlight_def count_union by linarith
    then show ?thesis by (simp add: count_mset_0_iff)
  qed
  with cs show ?thesis by auto
qed

theorem closed_listener_leaks_witness:
  "\<exists>cs. cl_ch exStopped = 2 # cs \<and> 2 \<notin> set (cl_accepted exStopped)"
proof -
  have st: "cl_stopped exStopped" by (simp add: exStopped_def)
  from closed_listener_leaks [OF exRun st cl_run.nil] show ?thesis by (auto simp: exStopped_def)
qed

end
