(* ===== verification/Xray_Bridge.thy ===== *)
theory Xray_Bridge
  imports Security_Reality
begin

text \<open>
  \<open>transport/xraybridge/bridge.go\<close>: what the adapters for xray-core's transports share: addresses, settings
  maps, and the translation of the security settings into xray-core's configuration types. xray-core's address
  type is \<open>'a\<close> with the functions of \<open>xnet\<close>; reading a file and the protobuf decoder are arguments.
\<close>

section \<open>Addresses\<close>

record 'a xnet =
  ParseAddress :: "string \<Rightarrow> 'a"
  IsDomain :: "'a \<Rightarrow> bool"
  LocalHostIP :: 'a
  AnyIP :: 'a

definition ParseXrayAddress :: "'a xnet \<Rightarrow> string \<Rightarrow> 'a" where
  "ParseXrayAddress X host =
     (let address = ParseAddress X host
      in if IsDomain X address then (if host = ''localhost'' then LocalHostIP X else AnyIP X) else address)"

datatype addr_error = MissingPort | TooManyColons | MissingBracket | UnexpectedBracket | BadPort

text \<open>\<open>net.SplitHostPort\<close>.\<close>

fun indexOf :: "char \<Rightarrow> string \<Rightarrow> nat option" where
  "indexOf c [] = None"
| "indexOf c (x # xs) = (if x = c then Some 0 else map_option Suc (indexOf c xs))"

definition lastIndexOf :: "char \<Rightarrow> string \<Rightarrow> nat option" where
  "lastIndexOf c s = map_option (\<lambda>i. length s - 1 - i) (indexOf c (rev s))"

definition splitHostPort :: "string \<Rightarrow> addr_error + string \<times> string" where
  "splitHostPort hp =
     (case lastIndexOf (CHR '':'') hp of
        None \<Rightarrow> Inl MissingPort
      | Some i \<Rightarrow>
          (let tail = (\<lambda>host j k.
                 if CHR ''['' \<in> set (drop j hp) then Inl UnexpectedBracket
                 else if CHR '']'' \<in> set (drop k hp) then Inl UnexpectedBracket
                 else Inr (host, drop (i + 1) hp))
           in if hp ! 0 = CHR ''['' then
                (case indexOf (CHR '']'') hp of
                   None \<Rightarrow> Inl MissingBracket
                 | Some e \<Rightarrow>
                     (if e + 1 = length hp then Inl MissingPort
                      else if e + 1 = i then tail (take (e - 1) (drop 1 hp)) 1 (e + 1)
                      else if hp ! (e + 1) = CHR '':'' then Inl TooManyColons
                      else Inl MissingPort))
              else (let host = take i hp
                    in if CHR '':'' \<in> set host then Inl TooManyColons else tail host 0 0)))"

definition ParseAddrPort :: "'a xnet \<Rightarrow> string \<Rightarrow> addr_error + 'a \<times> int" where
  "ParseAddrPort X addr =
     (case splitHostPort addr of
        Inl e \<Rightarrow> Inl e
      | Inr (host, portStr) \<Rightarrow>
          (case atoi portStr of
             None \<Rightarrow> Inl BadPort
           | Some p \<Rightarrow> Inr (ParseXrayAddress X host, p mod 65536)))"

section \<open>Settings\<close>

fun capitalise :: "string \<Rightarrow> string" where
  "capitalise [] = []"
| "capitalise (c # cs) = upperChar c # cs"

definition SnakeToCamel :: "string \<Rightarrow> string" where
  "SnakeToCamel s =
     (case splitOn (CHR ''_'') s of [] \<Rightarrow> [] | p # ps \<Rightarrow> join [] (p # map capitalise ps))"

text \<open>\<open>DecodeSettings\<close>: the loop over the settings in the order \<open>ord\<close>; \<open>unmarshal\<close> is the JSON encoding
  followed by \<open>protojson\<close>. Empty settings leave the message as it was.\<close>

definition camelSettings :: "string list \<Rightarrow> (string, jval) fmap \<Rightarrow> (string, jval) fmap" where
  "camelSettings ord raw =
     fold (\<lambda>k m. case fmlookup raw k of None \<Rightarrow> m | Some v \<Rightarrow> fmupd (SnakeToCamel k) v m) ord fmempty"

definition DecodeSettings :: "string list \<Rightarrow> ((string, jval) fmap \<Rightarrow> 'm option) \<Rightarrow> settings \<Rightarrow> 'm \<Rightarrow> 'm option" where
  "DecodeSettings ord unmarshal raw msg =
     (case raw of
        None \<Rightarrow> Some msg
      | Some m \<Rightarrow> (if m = fmempty then Some msg else unmarshal (camelSettings ord m)))"

section \<open>Security settings\<close>

datatype bridge_error = BridgeDecode sec_error | BridgeReadCert | BridgeReadKey | BridgeNoCert

record xray_tls =
  x_ServerName :: string
  x_Certificate :: "byte list"
  x_Key :: "byte list"
  x_NextProtocol :: "string list"
  x_MinVersion :: string
  x_MaxVersion :: string
  x_RejectUnknownSni :: bool

definition tlsVersionToString :: "int \<Rightarrow> string option" where
  "tlsVersionToString v =
     (if v = 769 then Some ''1.0'' else if v = 770 then Some ''1.1''
      else if v = 771 then Some ''1.2'' else if v = 772 then Some ''1.3'' else None)"

definition versionName :: "int \<Rightarrow> string" where
  "versionName v =
     (if v \<noteq> 0 then (case tlsVersionToString v of None \<Rightarrow> [] | Some s \<Rightarrow> s) else [])"

definition xrayKeyPair :: "(string \<Rightarrow> byte list option) \<Rightarrow> tls_typed \<Rightarrow> bridge_error + byte list \<times> byte list" where
  "xrayKeyPair readFile cfg =
     (if k_CertPEM cfg \<noteq> [] \<and> k_KeyPEM cfg \<noteq> [] then
        Inr (map byte_of (k_CertPEM cfg), map byte_of (k_KeyPEM cfg))
      else if k_CertFile cfg \<noteq> [] \<and> k_KeyFile cfg \<noteq> [] then
        (case readFile (k_CertFile cfg) of
           None \<Rightarrow> Inl BridgeReadCert
         | Some cert \<Rightarrow>
             (case readFile (k_KeyFile cfg) of None \<Rightarrow> Inl BridgeReadKey | Some key \<Rightarrow> Inr (cert, key)))
      else Inl BridgeNoCert)"

definition BuildXrayTLSConfig :: "(string \<Rightarrow> byte list option) \<Rightarrow> settings \<Rightarrow> bridge_error + xray_tls" where
  "BuildXrayTLSConfig readFile raw =
     (case DecodeTLSConfig raw of
        Inl e \<Rightarrow> Inl (BridgeDecode e)
      | Inr cfg \<Rightarrow>
          (case xrayKeyPair readFile cfg of
             Inl e \<Rightarrow> Inl e
           | Inr (cert, key) \<Rightarrow>
               Inr \<lparr>x_ServerName = k_ServerName cfg, x_Certificate = cert, x_Key = key,
                    x_NextProtocol = (if k_ALPN cfg \<noteq> [] then k_ALPN cfg else [''h2'', ''http/1.1'']),
                    x_MinVersion = versionName (k_MinVersion cfg), x_MaxVersion = versionName (k_MaxVersion cfg),
                    x_RejectUnknownSni = k_RejectUnknownSNI cfg\<rparr>))"

record xray_reality =
  xr_Show :: bool
  xr_Dest :: string
  xr_Type :: string
  xr_Xver :: nat
  xr_PrivateKey :: "byte list"
  xr_MinClientVer :: "byte list"
  xr_MaxClientVer :: "byte list"
  xr_MaxTimeDiff :: int
  xr_ServerNames :: "string list"
  xr_ShortIds :: "byte list list"

text \<open>\<open>uint64(d / time.Millisecond)\<close>: the division truncates towards zero, the conversion wraps.\<close>

definition millis :: "int \<Rightarrow> int" where
  "millis d = (if d < 0 then - ((- d) div 1000000) else d div 1000000) mod 2 ^ 64"

text \<open>\<open>ordN\<close> and \<open>ordS\<close> are the orders in which Go visits the two sets.\<close>

definition BuildXrayRealityConfig :: "string list \<Rightarrow> byte list list \<Rightarrow> settings \<Rightarrow> bridge_error + xray_reality" where
  "BuildXrayRealityConfig ordN ordS raw =
     (case DecodeRealityConfig raw of
        Inl e \<Rightarrow> Inl (BridgeDecode e)
      | Inr cfg \<Rightarrow>
          Inr \<lparr>xr_Show = y_Show cfg, xr_Dest = y_Target cfg, xr_Type = ''tcp'', xr_Xver = unat (y_Xver cfg),
               xr_PrivateKey = y_PrivateKey cfg, xr_MinClientVer = y_MinClientVer cfg,
               xr_MaxClientVer = y_MaxClientVer cfg, xr_MaxTimeDiff = millis (y_MaxTimeDiff cfg),
               xr_ServerNames = filter (\<lambda>n. n \<in> y_ServerNames cfg) ordN,
               xr_ShortIds = filter (\<lambda>s. s \<in> y_ShortIds cfg) ordS\<rparr>)"

section \<open>Lemmas\<close>

lemma join_Nil_concat: "join [] ps = concat ps"
  by (induction "[] :: string" ps rule: join.induct) auto

lemma SnakeToCamel_splitOn:
  "SnakeToCamel s = hd (splitOn (CHR ''_'') s) @ concat (map capitalise (tl (splitOn (CHR ''_'') s)))"
  by (cases "splitOn (CHR ''_'') s") (simp_all add: SnakeToCamel_def join_Nil_concat)

lemma tlsVersion_names: "tlsVersionMap v = Some n \<longleftrightarrow> tlsVersionToString n = Some v"
  by (auto simp: tlsVersionMap_def tlsVersionToString_def)

lemma millis_of_ms: "0 \<le> n \<Longrightarrow> n < 9223372036854 \<Longrightarrow> millis (wrap64 (n * 1000000)) = n"
proof -
  assume n: "0 \<le> n" "n < 9223372036854"
  then have "wrap64 (n * 1000000) = n * 1000000" by (intro wrap64_id) (simp add: is_i64_def)
  with n show ?thesis by (simp add: millis_def)
qed

text \<open>The inverse on well-formed keys: an upper-case letter starts a new word.\<close>

definition isLower :: "char \<Rightarrow> bool" where
  "isLower c = (let n = of_char c :: nat in 97 \<le> n \<and> n \<le> 122)"

definition isUpper :: "char \<Rightarrow> bool" where
  "isUpper c = (let n = of_char c :: nat in 65 \<le> n \<and> n \<le> 90)"

fun camelToSnake :: "string \<Rightarrow> string" where
  "camelToSnake [] = []"
| "camelToSnake (c # cs) = (if isUpper c then CHR ''_'' # lowerChar c # camelToSnake cs else c # camelToSnake cs)"

text \<open>A snake-case key: no upper-case letters, and every word after the first starts with a letter.\<close>

definition snake_ok :: "string \<Rightarrow> bool" where
  "snake_ok s \<longleftrightarrow> (\<forall>c \<in> set s. \<not> isUpper c) \<and>
     (\<forall>p \<in> set (tl (splitOn (CHR ''_'') s)). p \<noteq> [] \<and> isLower (hd p))"

lemma of_char_upperChar: "of_char (upperChar c) =
    (if 97 \<le> (of_char c :: nat) \<and> (of_char c :: nat) \<le> 122 then of_char c - 32 else of_char c :: nat)"
  by (auto simp: upperChar_def Let_def)

lemma upper_lower: "isLower c \<Longrightarrow> isUpper (upperChar c) \<and> lowerChar (upperChar c) = c"
proof -
  assume l: "isLower c"
  define m where "m = (of_char c :: nat) - 32"
  have c: "(of_char c :: nat) = m + 32" and m: "65 \<le> m" "m \<le> 90"
    using l unfolding m_def isLower_def Let_def by linarith+
  then have u: "of_char (upperChar c) = m" by (simp add: of_char_upperChar)
  then have "isUpper (upperChar c)" using m by (simp add: isUpper_def)
  moreover have "of_char (lowerChar (upperChar c)) = (of_char c :: nat)"
    unfolding of_char_lowerChar u c using m by simp
  ultimately show ?thesis by (metis char_of_char)
qed

lemma camelToSnake_lower: "\<forall>c \<in> set p. \<not> isUpper c \<Longrightarrow> camelToSnake (p @ q) = p @ camelToSnake q"
  by (induction p) auto

lemma join_splitOn: "join [sep] (splitOn sep s) = s"
proof (induction s)
  case (Cons c s)
  then show ?case by (cases "splitOn sep s"; cases "tl (splitOn sep s)") (auto split: list.splits)
qed simp

lemma splitOn_chars: "p \<in> set (splitOn sep s) \<Longrightarrow> set p \<subseteq> set s"
proof (induction s arbitrary: p)
  case (Cons c s)
  then show ?case by (cases "splitOn sep s") (auto split: if_splits, blast+)
qed simp

lemma camelToSnake_parts:
  "\<forall>p \<in> set ps. p \<noteq> [] \<and> isLower (hd p) \<and> (\<forall>c \<in> set p. \<not> isUpper c) \<Longrightarrow>
   camelToSnake (concat (map capitalise ps)) = concat (map (\<lambda>p. CHR ''_'' # p) ps)"
proof (induction ps)
  case (Cons p ps)
  then obtain c cs where "p = c # cs" by (cases p) auto
  with Cons upper_lower [of c] show ?case by (simp add: camelToSnake_lower)
qed simp

lemma join_sep_concat: "join [x] (p # ps) = p @ concat (map (\<lambda>p. x # p) ps)"
  by (induction ps arbitrary: p) auto

lemma SnakeToCamel_inverse:
  assumes "snake_ok s"
  shows "camelToSnake (SnakeToCamel s) = s"
proof -
  obtain p ps where sp: "splitOn (CHR ''_'') s = p # ps" by (cases "splitOn (CHR ''_'') s") auto
  have up: "\<forall>c \<in> set q. \<not> isUpper c" if "q \<in> set (p # ps)" for q
    using assms splitOn_chars [of q "CHR ''_''" s] that sp by (auto simp: snake_ok_def)
  have 1: "camelToSnake (p @ q) = p @ camelToSnake q" for q
    by (rule camelToSnake_lower) (rule up, simp)
  have 2: "camelToSnake (concat (map capitalise ps)) = concat (map (\<lambda>p. CHR ''_'' # p) ps)"
    using assms up by (intro camelToSnake_parts) (auto simp: snake_ok_def sp)
  have "camelToSnake (SnakeToCamel s) = p @ concat (map (\<lambda>p. CHR ''_'' # p) ps)"
    unfolding SnakeToCamel_splitOn sp list.sel 1 2 ..
  also have "\<dots> = join [CHR ''_''] (splitOn (CHR ''_'') s)" by (simp add: sp join_sep_concat)
  finally show ?thesis by (simp add: join_splitOn)
qed


lemma camelSettings_snoc: "camelSettings (ord @ [a]) m =
    (case fmlookup m a of None \<Rightarrow> camelSettings ord m | Some v \<Rightarrow> fmupd (SnakeToCamel a) v (camelSettings ord m))"
  by (simp add: camelSettings_def split: option.split)

lemma camelSettings_lookup:
  assumes "\<forall>k \<in> set ord. snake_ok k" "snake_ok k"
  shows "fmlookup (camelSettings ord m) (SnakeToCamel k) = (if k \<in> set ord then fmlookup m k else None)"
  using assms
proof (induction ord rule: rev_induct)
  case Nil
  then show ?case by (simp add: camelSettings_def)
next
  case (snoc a ord)
  have "SnakeToCamel a = SnakeToCamel k \<longleftrightarrow> a = k"
    using snoc.prems SnakeToCamel_inverse by (metis in_set_conv_decomp)
  with snoc.IH snoc.prems show ?case by (cases "fmlookup m a") (auto simp: camelSettings_snoc)
qed

lemma lastIndexOf_sep: "x \<notin> set t \<Longrightarrow> lastIndexOf x (s @ x # t) = Some (length s)"
proof -
  have "y \<notin> set t \<Longrightarrow> indexOf y (t @ y # s) = Some (length t)" for y t s
    by (induction t) auto
  then show "x \<notin> set t \<Longrightarrow> lastIndexOf x (s @ x # t) = Some (length s)"
    by (simp add: lastIndexOf_def)
qed

lemma natDigits_chars:
  assumes "c \<in> set (natDigits n)"
  shows "\<exists>d. decDigit c = Some d"
proof -
  obtain ds where "mapOpt decDigit (natDigits n) = Some ds" using natDigits_value by blast
  moreover have "mapOpt decDigit s = Some ds \<Longrightarrow> c \<in> set s \<Longrightarrow> \<exists>d. decDigit c = Some d" for s ds
    by (induction s arbitrary: ds) (auto split: option.splits)
  ultimately show ?thesis using assms by blast
qed

lemma itoa_chars: "c \<in> set (itoa p) \<Longrightarrow> c = CHR ''-'' \<or> (\<exists>d. decDigit c = Some d)"
  using natDigits_chars by (fastforce simp: itoa_def split: if_splits)

lemma itoa_no_colon: "CHR '':'' \<notin> set (itoa p)" "CHR ''['' \<notin> set (itoa p)" "CHR '']'' \<notin> set (itoa p)"
  using itoa_chars [of "CHR '':''" p] itoa_chars [of "CHR ''[''" p] itoa_chars [of "CHR '']''" p]
  by (auto simp: decDigit_def)

lemma splitHostPort_colon: "splitHostPort (CHR '':'' # itoa p) = Inr ([], itoa p)"
  using lastIndexOf_sep [of "CHR '':''" "itoa p" "[]"] itoa_no_colon [of p]
  by (simp add: splitHostPort_def Let_def)

lemma exReality_decodes: "\<exists>c. DecodeRealityConfig (Some (realityToMap exReality)) = Inr c"
proof -
  have "b64Decode (rl_PrivateKey exReality) = Some (replicate 32 0)"
    "shortIdKey ''aBcD'' = Inr [171, 205, 0, 0, 0, 0, 0, 0]"
    by code_simp+
  then show ?thesis
    unfolding DecodeRealityConfig_built privateKey_Inr shortIdLoop_Inr
    by (auto simp: exReality_def)
qed

section \<open>Properties\<close>

text \<open>Translating the keys of a settings map loses nothing: on snake-case keys the translation is
  injective, so every setting is found under its camel-case name, whatever the order of the iteration.\<close>

lemma camelSettings_lossless:
  assumes "enumerates ord (fmlookup m)" and "\<forall>k. fmlookup m k \<noteq> None \<longrightarrow> snake_ok k"
  shows "(snake_ok k \<longrightarrow> fmlookup (camelSettings ord m) (SnakeToCamel k) = fmlookup m k) \<and>
         (snake_ok k \<longrightarrow> camelToSnake (SnakeToCamel k) = k)"
proof -
  have "\<forall>k \<in> set ord. snake_ok k" using assms enumerates_mem [OF assms(1)] by blast
  moreover have "k \<notin> set ord \<Longrightarrow> fmlookup m k = None" using enumerates_mem [OF assms(1)] by blast
  ultimately show ?thesis by (auto simp: camelSettings_lookup SnakeToCamel_inverse)
qed

lemma camelSettings_lossless_witness:
  "fmlookup (camelSettings [''x_padding_bytes'', ''path''] (fmap_of_list [(''path'', JStr ''/''), (''x_padding_bytes'', JStr ''9'')]))
     ''xPaddingBytes'' = Some (JStr ''9'')"
proof -
  let ?m = "fmap_of_list [(''path'', JStr ''/''), (''x_padding_bytes'', JStr ''9'')]"
  have s: "SnakeToCamel ''x_padding_bytes'' = ''xPaddingBytes''" by code_simp
  have ok: "snake_ok ''x_padding_bytes''" "snake_ok ''path''" by code_simp+
  have e: "enumerates [''x_padding_bytes'', ''path''] (fmlookup ?m)"
    by (auto simp: enumerates_def fmlookup_of_list split: if_splits)
  have "\<forall>k. fmlookup ?m k \<noteq> None \<longrightarrow> snake_ok k" using ok by (auto simp: fmlookup_of_list split: if_splits)
  from camelSettings_lossless [OF e this, of "''x_padding_bytes''"] ok(1) show ?thesis
    by (simp add: s [symmetric] fmlookup_of_list del: fmap_of_list_simps)
qed

text \<open>What \<open>crypto/tls\<close> documents of the two loaders: \<open>LoadX509KeyPair\<close> is \<open>X509KeyPair\<close> of the contents of the two
  files; \<open>pair\<close> is \<open>X509KeyPair\<close> and \<open>rf\<close> reads a file.\<close>

definition loads_pairs :: "(cert_source \<Rightarrow> 'c option) \<Rightarrow> (string \<Rightarrow> byte list option) \<Rightarrow> (byte list \<Rightarrow> byte list \<Rightarrow> 'c option) \<Rightarrow> bool" where
  "loads_pairs load rf pair \<longleftrightarrow>
     (\<forall>c k. load (CertInline c k) = pair (map byte_of c) (map byte_of k)) \<and>
     (\<forall>c k. load (CertFiles c k) = (case rf c of None \<Rightarrow> None | Some cb \<Rightarrow> (case rf k of None \<Rightarrow> None | Some kb \<Rightarrow> pair cb kb)))"

definition bothPairs :: "tls_typed \<Rightarrow> bool" where
  "bothPairs cfg \<longleftrightarrow> k_CertPEM cfg \<noteq> [] \<and> k_KeyPEM cfg \<noteq> [] \<and> k_CertFile cfg \<noteq> [] \<and> k_KeyFile cfg \<noteq> []"

lemma bridge_certificates:
  assumes "loads_pairs load rf pair" "DecodeTLSConfig raw = Inr cfg" "BuildTLSConfig load cfg = Inr tc" "BuildXrayTLSConfig rf raw = Inr x"
  shows "(\<not> bothPairs cfg \<longrightarrow> map Some (tc_Certificates tc) = [pair (x_Certificate x) (x_Key x)]) \<and>
    (bothPairs cfg \<longrightarrow> x_Certificate x = map byte_of (k_CertPEM cfg) \<and> x_Key x = map byte_of (k_KeyPEM cfg) \<and>
       (\<exists>cert key. rf (k_CertFile cfg) = Some cert \<and> rf (k_KeyFile cfg) = Some key \<and> map Some (tc_Certificates tc) = [pair cert key]))"
proof -
  have x: "xrayKeyPair rf cfg = Inr (x_Certificate x, x_Key x)"
    using assms(2,4) by (auto simp: BuildXrayTLSConfig_def split: sum.splits)
  obtain src cert where src: "certSource cfg = Some src" "load src = Some cert" "tc_Certificates tc = [cert]"
    using assms(3) by (auto simp: BuildTLSConfig_def Let_def split: option.splits if_splits)
  show ?thesis
  proof (cases "k_CertFile cfg \<noteq> [] \<and> k_KeyFile cfg \<noteq> []")
    case True
    with src(1) have "src = CertFiles (k_CertFile cfg) (k_KeyFile cfg)" by (simp add: certSource_def)
    with src(2) assms(1) obtain cb kb where f: "rf (k_CertFile cfg) = Some cb" "rf (k_KeyFile cfg) = Some kb" "pair cb kb = Some cert"
      by (auto simp: loads_pairs_def split: option.splits)
    with True x src(3) show ?thesis by (auto simp: xrayKeyPair_def bothPairs_def split: if_splits)
  next
    case False
    with src(1) have "src = CertInline (k_CertPEM cfg) (k_KeyPEM cfg)" "k_CertPEM cfg \<noteq> []" "k_KeyPEM cfg \<noteq> []"
      by (auto simp: certSource_def split: if_splits)
    with src(2,3) assms(1) False x show ?thesis by (auto simp: loads_pairs_def xrayKeyPair_def bothPairs_def)
  qed
qed

text \<open>C38: the two ways of applying TLS agree. Both refuse settings without a complete certificate pair; when both
  accept, what the native listener and the xray-core listener are given has the same server name, protocol list and
  treatment of unknown names, the same versions where they are configured, and the same certificate and key as long
  as only one pair is configured. When the settings hold a file pair and an inline pair they differ: the native
  listener takes the files, the xray-core listener the inline pair.\<close>

theorem bridge_tls_agrees:
  assumes "DecodeTLSConfig raw = Inr cfg" "loads_pairs load rf pair"
  shows "(BuildTLSConfig load cfg = Inl NoCertificate \<longleftrightarrow> BuildXrayTLSConfig rf raw = Inl BridgeNoCert) \<and>
    (\<forall>tc x. BuildTLSConfig load cfg = Inr tc \<and> BuildXrayTLSConfig rf raw = Inr x \<longrightarrow>
      x_ServerName x = tc_ServerName tc \<and> x_NextProtocol x = tc_NextProtos tc \<and>
      (x_RejectUnknownSni x \<longleftrightarrow> tc_GetConfigForClient tc \<noteq> None) \<and>
      (x_MinVersion x \<noteq> [] \<longrightarrow> tlsVersionMap (x_MinVersion x) = Some (tc_MinVersion tc)) \<and>
      (x_MinVersion x = [] \<longrightarrow> tc_MinVersion tc = 771) \<and>
      (tc_MaxVersion tc \<noteq> 0 \<longrightarrow> tlsVersionMap (x_MaxVersion x) = Some (tc_MaxVersion tc)) \<and>
      (\<not> bothPairs cfg \<longrightarrow> map Some (tc_Certificates tc) = [pair (x_Certificate x) (x_Key x)]) \<and>
      (bothPairs cfg \<longrightarrow> x_Certificate x = map byte_of (k_CertPEM cfg) \<and> x_Key x = map byte_of (k_KeyPEM cfg) \<and>
         (\<exists>cert key. rf (k_CertFile cfg) = Some cert \<and> rf (k_KeyFile cfg) = Some key \<and> map Some (tc_Certificates tc) = [pair cert key])))"
proof (intro conjI allI impI)
  show "BuildTLSConfig load cfg = Inl NoCertificate \<longleftrightarrow> BuildXrayTLSConfig rf raw = Inl BridgeNoCert"
    using assms(1)
    by (auto simp: BuildTLSConfig_def BuildXrayTLSConfig_def certSource_def xrayKeyPair_def Let_def split: option.splits sum.splits if_splits)
next
  fix tc :: "'a tls_conf" and x
  assume "BuildTLSConfig load cfg = Inr tc \<and> BuildXrayTLSConfig rf raw = Inr x"
  then have t: "BuildTLSConfig load cfg = Inr tc" and bx: "BuildXrayTLSConfig rf raw = Inr x" by auto
  have dec: "k_MinVersion cfg = 0 \<or> (\<exists>s. tlsVersionToString (k_MinVersion cfg) = Some s \<and> s \<noteq> [])"
    "k_MaxVersion cfg = 0 \<or> (\<exists>s. tlsVersionToString (k_MaxVersion cfg) = Some s)"
    using assms(1)
    by (auto simp: DecodeTLSConfig_def versionField_def tlsVersionMap_def tlsVersionToString_def
        split: option.splits sum.splits if_splits)
  have tc: "tc_ServerName tc = k_ServerName cfg" "tc_NextProtos tc = (if k_ALPN cfg \<noteq> [] then k_ALPN cfg else [''h2'', ''http/1.1''])"
    "(\<exists>y. tc_GetConfigForClient tc = Some y) = k_RejectUnknownSNI cfg"
    "tc_MinVersion tc = (if k_MinVersion cfg = 0 then 771 else k_MinVersion cfg)" "tc_MaxVersion tc = k_MaxVersion cfg"
    using t by (auto simp: BuildTLSConfig_def Let_def split: option.splits if_splits)
  have xf: "x_ServerName x = k_ServerName cfg" "x_NextProtocol x = (if k_ALPN cfg \<noteq> [] then k_ALPN cfg else [''h2'', ''http/1.1''])"
    "x_RejectUnknownSni x = k_RejectUnknownSNI cfg" "x_MinVersion x = versionName (k_MinVersion cfg)"
    "x_MaxVersion x = versionName (k_MaxVersion cfg)"
    using assms(1) bx by (auto simp: BuildXrayTLSConfig_def split: sum.splits)
  note certs = bridge_certificates [OF assms(2,1) t bx]
  show "x_ServerName x = tc_ServerName tc" "x_NextProtocol x = tc_NextProtos tc" "x_RejectUnknownSni x \<longleftrightarrow> tc_GetConfigForClient tc \<noteq> None"
    by (simp_all add: tc xf)
  show "tlsVersionMap (x_MinVersion x) = Some (tc_MinVersion tc)" if "x_MinVersion x \<noteq> []"
    using that dec(1) by (auto simp: tc xf versionName_def tlsVersion_names)
  show "tc_MinVersion tc = 771" if "x_MinVersion x = []" using that dec(1) by (auto simp: tc xf versionName_def)
  show "tlsVersionMap (x_MaxVersion x) = Some (tc_MaxVersion tc)" if "tc_MaxVersion tc \<noteq> 0"
    using that dec(2) by (auto simp: tc xf versionName_def tlsVersion_names)
  show "map Some (tc_Certificates tc) = [pair (x_Certificate x) (x_Key x)]" if "\<not> bothPairs cfg" using certs that by blast
  show "x_Certificate x = map byte_of (k_CertPEM cfg)" "x_Key x = map byte_of (k_KeyPEM cfg)"
    "\<exists>cert key. rf (k_CertFile cfg) = Some cert \<and> rf (k_KeyFile cfg) = Some key \<and> map Some (tc_Certificates tc) = [pair cert key]"
    if "bothPairs cfg" using certs that by blast+
qed

text \<open>A reader that finds every file empty, and certificates that are pairs of what they are loaded from.\<close>

definition exLoad :: "cert_source \<Rightarrow> (byte list \<times> byte list) option" where
  "exLoad src = (case src of CertFiles c k \<Rightarrow> Some ([], []) | CertInline c k \<Rightarrow> Some (map byte_of c, map byte_of k))"

theorem bridge_tls_agrees_witness:
  "\<exists>tc x. BuildTLSConfig exLoad exTLSTyped = Inr tc \<and> BuildXrayTLSConfig (\<lambda>_. Some []) (buildSecuritySettings exTLSStream) = Inr x \<and>
     tlsVersionMap (x_MaxVersion x) = Some 772 \<and> tc_Certificates tc = [(x_Certificate x, x_Key x)]"
proof -
  have d: "DecodeTLSConfig (buildSecuritySettings exTLSStream) = Inr exTLSTyped"
    by (simp add: exTLSStream_def buildSecuritySettings_def DecodeTLSConfig_built exTLSTyped_def)
      (simp add: exTLS_def versionOf_def tlsVersionMap_def)
  have l: "loads_pairs exLoad (\<lambda>_. Some []) (\<lambda>c k. Some (c, k))" by (simp add: loads_pairs_def exLoad_def)
  have one: "\<not> bothPairs exTLSTyped" by (simp add: bothPairs_def exTLSTyped_def)
  obtain tc where tc: "BuildTLSConfig exLoad exTLSTyped = Inr tc" "tc_MaxVersion tc = 772"
    by (simp add: BuildTLSConfig_def certSource_def exTLSTyped_def exLoad_def)
  obtain x where x: "BuildXrayTLSConfig (\<lambda>_. Some []) (buildSecuritySettings exTLSStream) = Inr x"
    by (simp add: BuildXrayTLSConfig_def d xrayKeyPair_def) (simp add: exTLSTyped_def)
  from bridge_tls_agrees [OF d l] tc x one
  have "tlsVersionMap (x_MaxVersion x) = Some 772" "map Some (tc_Certificates tc) = [Some (x_Certificate x, x_Key x)]"
    by auto
  with tc(1) x show ?thesis by (cases "tc_Certificates tc") auto
qed

text \<open>The REALITY block reaches xray-core's listener unchanged: target, server name, key, all short IDs and
  the clock tolerance in milliseconds, for every tolerance up to 292 years.\<close>

lemma bridge_reality_agrees:
  assumes "st_Security s = ''reality''" "st_RealityConfig s = Some r"
    and "BuildXrayRealityConfig ordN ordS (buildSecuritySettings s) = Inr x"
    and "distinct ordN" "set ordN = {rl_ServerName r}" "\<forall>i \<in> set (rl_ShortIds r). \<forall>k. shortIdKey i = Inr k \<longrightarrow> k \<in> set ordS"
    and "0 \<le> rl_MaxTimeDiff r" "rl_MaxTimeDiff r < 9223372036854"
  shows "xr_Dest x = rl_Target r \<and> xr_ServerNames x = [rl_ServerName r] \<and>
    b64Decode (rl_PrivateKey r) = Some (xr_PrivateKey x) \<and> length (xr_PrivateKey x) = 32 \<and>
    (rl_ShortIds r \<noteq> [] \<longrightarrow> set (xr_ShortIds x) = {k. \<exists>i \<in> set (rl_ShortIds r). shortIdKey i = Inr k}) \<and>
    xr_MaxTimeDiff x = rl_MaxTimeDiff r"
proof -
  obtain c where c: "DecodeRealityConfig (Some (realityToMap r)) = Inr c"
    and x: "xr_Dest x = y_Target c" "xr_PrivateKey x = y_PrivateKey c" "xr_MaxTimeDiff x = millis (y_MaxTimeDiff c)"
      "xr_ServerNames x = filter (\<lambda>n. n \<in> y_ServerNames c) ordN" "xr_ShortIds x = filter (\<lambda>s. s \<in> y_ShortIds c) ordS"
    using assms(1-3) by (auto simp: BuildXrayRealityConfig_def buildSecuritySettings_def split: sum.splits)
  have "ordN = [rl_ServerName r]"
    using assms(4,5) by (metis distinct.simps(2) distinct_singleton list.set(1) set_ConsD empty_not_insert list.exhaust list.set_intros(1) list.set_intros(2) singletonD)
  moreover have "xr_MaxTimeDiff x = rl_MaxTimeDiff r"
    using c x(3) millis_of_ms [OF assms(7,8)] assms(7,8) by (auto simp: DecodeRealityConfig_built int64OfFloat_exact)
  ultimately show ?thesis
    using c assms(6)
    by (auto simp: x(1,2,4,5) DecodeRealityConfig_built shortIdLoop_Inr privateKey_Inr shortIds_empty split: if_splits)
qed

lemma bridge_reality_agrees_witness:
  "\<exists>x. BuildXrayRealityConfig [''a.io''] [[171, 205, 0, 0, 0, 0, 0, 0]] (buildSecuritySettings exRealityStream) = Inr x \<and>
     xr_MaxTimeDiff x = 5"
proof -
  have k: "shortIdKey ''aBcD'' = Inr [171, 205, 0, 0, 0, 0, 0, 0]" by code_simp
  obtain x where x: "BuildXrayRealityConfig [''a.io''] [[171, 205, 0, 0, 0, 0, 0, 0]] (buildSecuritySettings exRealityStream) = Inr x"
    using exReality_decodes by (auto simp: BuildXrayRealityConfig_def buildSecuritySettings_def exRealityStream_def)
  have s: "st_Security exRealityStream = ''reality''" "st_RealityConfig exRealityStream = Some exReality"
    by (simp_all add: exRealityStream_def)
  from bridge_reality_agrees [OF s x] x k show ?thesis by (simp add: exReality_def)
qed
text \<open>The address the server listens on, a colon and the configured port, is parsed to all interfaces and
  that port; a port outside the 16-bit range is not refused but reduced modulo 65536.\<close>

lemma ParseAddrPort_listen:
  assumes "IsDomain X (ParseAddress X [])" and "is_i64 p"
  shows "ParseAddrPort X (CHR '':'' # itoa p) = Inr (AnyIP X, p mod 65536)"
  using assms by (simp add: ParseAddrPort_def splitHostPort_colon atoi_itoa ParseXrayAddress_def)

definition exXnet :: "string xnet" where
  "exXnet = \<lparr>ParseAddress = (\<lambda>s. s), IsDomain = (\<lambda>s. \<forall>c \<in> set s. c \<noteq> CHR ''.''), LocalHostIP = ''127.0.0.1'', AnyIP = ''0.0.0.0''\<rparr>"

lemma ParseAddrPort_listen_witness:
  "ParseAddrPort exXnet (CHR '':'' # itoa 65979) = Inr (''0.0.0.0'', 443)"
  using ParseAddrPort_listen [of exXnet 65979] by (simp add: exXnet_def is_i64_def)
end
