(* ===== verification/Transport.thy ===== *)
theory Transport
  imports Xray_Bridge
begin

text \<open>
  \<open>transport/transport.go\<close> (the registry and \<open>Listen\<close>), \<open>transport/tcp/tcp.go\<close>, \<open>transport/ws/transport.go\<close>,
  \<open>transport/xhttp/transport.go\<close> and the imports of \<open>proxy/vless/bootstrap.go\<close> that register the three. The
  operating system's sockets are a list of bound addresses; binding fails when the address is taken (or for a
  reason of the system, \<open>te_canBind\<close>). The listeners of xray-core, its protobuf messages \<open>'m\<close> and its addresses
  \<open>'a\<close> are arguments.
\<close>

section \<open>Types\<close>

record stream_config =
  sc_Network :: string
  sc_Settings :: settings
  sc_Security :: string
  sc_SecuritySettings :: settings

text \<open>xray-core's \<open>MemoryStreamConfig\<close>, the fields the adapters set.\<close>

record 'm mem_conf =
  mc_ProtocolName :: string
  mc_ProtocolSettings :: 'm
  mc_SecurityType :: string
  mc_TLS :: "xray_tls option"
  mc_Reality :: "xray_reality option"

record ('a, 'm, 'c) tenv =
  te_canBind :: "string \<Rightarrow> bool"
  te_load :: "cert_source \<Rightarrow> 'c option"
  te_readFile :: "string \<Rightarrow> byte list option"
  te_xnet :: "'a xnet"
  te_unmarshal :: "string \<Rightarrow> (string, jval) fmap \<Rightarrow> 'm option"
  te_zero :: "string \<Rightarrow> 'm"
  te_listenXray :: "'a \<Rightarrow> int \<Rightarrow> 'm mem_conf \<Rightarrow> nat option"
  te_settingsOrd :: "string list"
  te_namesOrd :: "string list"
  te_idsOrd :: "byte list list"

record netw =
  sockets :: "(nat \<times> string) list"
  nextSocket :: nat

datatype transport_error =
    TE_Addr addr_error | TE_Settings | TE_Security sec_error | TE_Bridge bridge_error
  | TE_Unsupported string | TE_Bind | TE_XrayListen | TE_UnknownNetwork string

datatype ('m, 'c) any_listener = NativeL "'c listener" | XrayL nat "'m mem_conf"

section \<open>The tcp transport\<close>

definition netListen :: "('a, 'm, 'c) tenv \<Rightarrow> string \<Rightarrow> netw \<Rightarrow> nat option \<times> netw" where
  "netListen E addr n =
     (if \<not> te_canBind E addr \<or> addr \<in> snd ` set (sockets n) then (None, n)
      else (Some (nextSocket n),
            \<lparr>sockets = sockets n @ [(nextSocket n, addr)], nextSocket = Suc (nextSocket n)\<rparr>))"

definition tcpListen :: "('a, 'm, 'c) tenv \<Rightarrow> string \<Rightarrow> stream_config \<Rightarrow> netw
    \<Rightarrow> (transport_error + ('m, 'c) any_listener) \<times> netw" where
  "tcpListen E addr cfg n =
     (case netListen E addr n of
        (None, n1) \<Rightarrow> (Inl TE_Bind, n1)
      | (Some l, n1) \<Rightarrow>
          (case Wrap (te_load E) l (sc_Security cfg) (sc_SecuritySettings cfg) of
             Inl e \<Rightarrow> (Inl (TE_Security e), n1)
           | Inr lsn \<Rightarrow> (Inr (NativeL lsn), n1)))"

section \<open>The ws and xhttp transports\<close>

text \<open>The two adapters are the same code but for the protocol name they pass on and the packages their listener and
  message come from (\<open>ws/transport.go\<close> and \<open>xhttp/transport.go\<close>), so they share \<open>xrayListen\<close>; \<open>te_listenXray\<close>,
  \<open>te_unmarshal\<close> and \<open>te_zero\<close> tell the packages apart by that name.\<close>

text \<open>The security part of the stream settings; the same switch in both adapters.\<close>

definition xraySecurity :: "('a, 'm, 'c) tenv \<Rightarrow> stream_config \<Rightarrow> 'm mem_conf \<Rightarrow> transport_error + 'm mem_conf" where
  "xraySecurity E cfg mc =
     (if sc_Security cfg = [] \<or> sc_Security cfg = ''none'' then Inr mc
      else if sc_Security cfg = ''tls'' then
        (case BuildXrayTLSConfig (te_readFile E) (sc_SecuritySettings cfg) of
           Inl e \<Rightarrow> Inl (TE_Bridge e)
         | Inr t \<Rightarrow> Inr (mc\<lparr>mc_SecurityType := ''tls'', mc_TLS := Some t\<rparr>))
      else if sc_Security cfg = ''reality'' then
        (case BuildXrayRealityConfig (te_namesOrd E) (te_idsOrd E) (sc_SecuritySettings cfg) of
           Inl e \<Rightarrow> Inl (TE_Bridge e)
         | Inr r \<Rightarrow> Inr (mc\<lparr>mc_SecurityType := ''reality'', mc_Reality := Some r\<rparr>))
      else Inl (TE_Unsupported (sc_Security cfg)))"

definition xrayListen :: "('a, 'm, 'c) tenv \<Rightarrow> string \<Rightarrow> string \<Rightarrow> stream_config \<Rightarrow> transport_error + ('m, 'c) any_listener" where
  "xrayListen E protocol addr cfg =
     (case ParseAddrPort (te_xnet E) addr of
        Inl e \<Rightarrow> Inl (TE_Addr e)
      | Inr (address, p) \<Rightarrow>
          (case DecodeSettings (te_settingsOrd E) (te_unmarshal E protocol) (sc_Settings cfg) (te_zero E protocol) of
             None \<Rightarrow> Inl TE_Settings
           | Some m \<Rightarrow>
               (case xraySecurity E cfg \<lparr>mc_ProtocolName = protocol, mc_ProtocolSettings = m,
                       mc_SecurityType = [], mc_TLS = None, mc_Reality = None\<rparr> of
                  Inl e \<Rightarrow> Inl e
                | Inr mc \<Rightarrow>
                    (case te_listenXray E address p mc of
                       None \<Rightarrow> Inl TE_XrayListen
                     | Some inner \<Rightarrow> Inr (XrayL inner mc)))))"

definition wsListen :: "('a, 'm, 'c) tenv \<Rightarrow> string \<Rightarrow> stream_config \<Rightarrow> transport_error + ('m, 'c) any_listener" where
  "wsListen E = xrayListen E ''websocket''"

definition xhttpListen :: "('a, 'm, 'c) tenv \<Rightarrow> string \<Rightarrow> stream_config \<Rightarrow> transport_error + ('m, 'c) any_listener" where
  "xhttpListen E = xrayListen E ''xhttp''"

section \<open>The registry\<close>

datatype transport_impl = TcpTransport | WsTransport | XhttpTransport

fun Name :: "transport_impl \<Rightarrow> string" where
  "Name TcpTransport = ''tcp''"
| "Name WsTransport = ''ws''"
| "Name XhttpTransport = ''xhttp''"

type_synonym registry = "string \<rightharpoonup> transport_impl"

definition Register :: "transport_impl \<Rightarrow> registry \<Rightarrow> registry" where
  "Register t r = r(Name t \<mapsto> t)"

definition Get :: "string \<Rightarrow> registry \<Rightarrow> transport_error + transport_impl" where
  "Get name r = (case r name of None \<Rightarrow> Inl (TE_UnknownNetwork name) | Some t \<Rightarrow> Inr t)"

text \<open>The names in the order the loop over the registry visits them.\<close>

definition Available :: "string list \<Rightarrow> registry \<Rightarrow> string list" where
  "Available ord r = fold (\<lambda>n names. if r n = None then names else names @ [n]) ord []"

text \<open>The package \<open>init\<close> functions run by the imports of \<open>bootstrap.go\<close>.\<close>

definition bootRegistry :: registry where
  "bootRegistry = Register XhttpTransport (Register WsTransport (Register TcpTransport Map.empty))"

definition implListen :: "('a, 'm, 'c) tenv \<Rightarrow> transport_impl \<Rightarrow> string \<Rightarrow> stream_config \<Rightarrow> netw
    \<Rightarrow> (transport_error + ('m, 'c) any_listener) \<times> netw" where
  "implListen E t addr cfg n =
     (case t of
        TcpTransport \<Rightarrow> tcpListen E addr cfg n
      | WsTransport \<Rightarrow> (wsListen E addr cfg, n)
      | XhttpTransport \<Rightarrow> (xhttpListen E addr cfg, n))"

definition Listen :: "('a, 'm, 'c) tenv \<Rightarrow> registry \<Rightarrow> stream_config \<Rightarrow> string \<Rightarrow> netw
    \<Rightarrow> (transport_error + ('m, 'c) any_listener) \<times> netw" where
  "Listen E r cfg addr n =
     (let name = (if sc_Network cfg = [] then ''tcp'' else sc_Network cfg)
      in case Get name r of
           Inl e \<Rightarrow> (Inl e, n)
         | Inr t \<Rightarrow> implListen E t addr cfg n)"

section \<open>Lemmas\<close>

lemma bootRegistry_eq:
  "bootRegistry name = (if name = ''tcp'' then Some TcpTransport else if name = ''ws'' then Some WsTransport
     else if name = ''xhttp'' then Some XhttpTransport else None)"
  by (simp add: bootRegistry_def Register_def)

text \<open>An empty security counts as ``none''.\<close>

definition effSecurity :: "stream_config \<Rightarrow> string" where
  "effSecurity cfg = (if sc_Security cfg = [] then ''none'' else sc_Security cfg)"

text \<open>A listener of the tcp transport that is secured as the settings say: the raw socket, or the TLS or REALITY
  listener around it with the configuration built from the settings.\<close>

definition nativelySecured :: "('a, 'm, 'c) tenv \<Rightarrow> stream_config \<Rightarrow> nat \<Rightarrow> 'c listener \<Rightarrow> bool" where
  "nativelySecured E cfg l lsn \<longleftrightarrow>
     (effSecurity cfg = ''none'' \<and> lsn = RawListener l) \<or>
     (effSecurity cfg = ''tls'' \<and> (\<exists>t tc. DecodeTLSConfig (sc_SecuritySettings cfg) = Inr t \<and> BuildTLSConfig (te_load E) t = Inr tc \<and>
        lsn = TlsListener l tc)) \<or>
     (effSecurity cfg = ''reality'' \<and> (\<exists>r. DecodeRealityConfig (sc_SecuritySettings cfg) = Inr r \<and>
        lsn = RealityListener l (BuildRealityConfig r)))"

text \<open>Stream settings for xray-core that ask for the security the settings say, with the configuration built from
  them.\<close>

definition asksForSecurity :: "('a, 'm, 'c) tenv \<Rightarrow> stream_config \<Rightarrow> 'm mem_conf \<Rightarrow> bool" where
  "asksForSecurity E cfg mc \<longleftrightarrow>
     (effSecurity cfg = ''none'' \<and> mc_SecurityType mc = [] \<and> mc_TLS mc = None \<and> mc_Reality mc = None) \<or>
     (effSecurity cfg = ''tls'' \<and> mc_SecurityType mc = ''tls'' \<and> mc_Reality mc = None \<and>
        (\<exists>t. BuildXrayTLSConfig (te_readFile E) (sc_SecuritySettings cfg) = Inr t \<and> mc_TLS mc = Some t)) \<or>
     (effSecurity cfg = ''reality'' \<and> mc_SecurityType mc = ''reality'' \<and> mc_TLS mc = None \<and>
        (\<exists>r. BuildXrayRealityConfig (te_namesOrd E) (te_idsOrd E) (sc_SecuritySettings cfg) = Inr r \<and> mc_Reality mc = Some r))"

lemma Wrap_secured: "Wrap (te_load E) l (sc_Security cfg) (sc_SecuritySettings cfg) = Inr lsn \<Longrightarrow> nativelySecured E cfg l lsn"
  by (auto simp: Wrap_def WrapTLS_def WrapReality_def effSecurity_def nativelySecured_def split: sum.splits if_splits)

lemma xraySecurity_asks:
  "xraySecurity E cfg mc0 = Inr mc \<Longrightarrow> mc_SecurityType mc0 = [] \<Longrightarrow> mc_TLS mc0 = None \<Longrightarrow> mc_Reality mc0 = None \<Longrightarrow>
   asksForSecurity E cfg mc \<and> mc_ProtocolName mc = mc_ProtocolName mc0 \<and> mc_ProtocolSettings mc = mc_ProtocolSettings mc0"
  by (auto simp: xraySecurity_def effSecurity_def asksForSecurity_def split: sum.splits if_splits)

lemma tcpListen_secured:
  assumes "fst (tcpListen E addr cfg n) = Inr lsn"
  shows "\<exists>l nl. lsn = NativeL nl \<and> l \<in> fst ` set (sockets (snd (tcpListen E addr cfg n))) \<and> nativelySecured E cfg l nl"
proof -
  obtain l n1 where b: "netListen E addr n = (Some l, n1)" using assms by (auto simp: tcpListen_def split: prod.splits option.splits)
  then have l: "l \<in> fst ` set (sockets n1)" by (auto simp: netListen_def split: if_splits)
  from assms b obtain nl where w: "Wrap (te_load E) l (sc_Security cfg) (sc_SecuritySettings cfg) = Inr nl" "lsn = NativeL nl"
    by (auto simp: tcpListen_def split: sum.splits)
  with b have "snd (tcpListen E addr cfg n) = n1" by (simp add: tcpListen_def)
  with w l Wrap_secured [OF w(1)] show ?thesis by blast
qed

lemma xrayListen_secured:
  assumes "xrayListen E protocol addr cfg = Inr lsn"
  shows "\<exists>inner mc address p. lsn = XrayL inner mc \<and> ParseAddrPort (te_xnet E) addr = Inr (address, p) \<and>
    te_listenXray E address p mc = Some inner \<and> mc_ProtocolName mc = protocol \<and>
    DecodeSettings (te_settingsOrd E) (te_unmarshal E protocol) (sc_Settings cfg) (te_zero E protocol) = Some (mc_ProtocolSettings mc) \<and>
    asksForSecurity E cfg mc"
proof -
  obtain address p m mc inner where x: "ParseAddrPort (te_xnet E) addr = Inr (address, p)"
    "DecodeSettings (te_settingsOrd E) (te_unmarshal E protocol) (sc_Settings cfg) (te_zero E protocol) = Some m"
    "xraySecurity E cfg \<lparr>mc_ProtocolName = protocol, mc_ProtocolSettings = m, mc_SecurityType = [], mc_TLS = None, mc_Reality = None\<rparr> = Inr mc"
    "te_listenXray E address p mc = Some inner" "lsn = XrayL inner mc"
    using assms by (auto simp: xrayListen_def split: sum.splits option.splits prod.splits)
  from xraySecurity_asks [OF x(3)] x show ?thesis by auto
qed

section \<open>Properties\<close>

text \<open>C36: a listener never comes back with another security than the configured one. Over tcp it is the bound socket,
  raw exactly when the security is empty or ``none'', else wrapped in TLS or REALITY with the configuration built from
  the settings. Over ws and xhttp xray-core was asked to listen on the address with stream settings that name exactly
  the configured security and carry the configuration built from the settings (what xray-core then enforces is not
  this repository's code). An unknown network or security, and settings that do not build, give no listener.\<close>

theorem Listen_secures:
  assumes "fst (Listen E bootRegistry cfg addr n) = Inr lsn"
  shows "effSecurity cfg \<in> {''none'', ''tls'', ''reality''} \<and>
    ((sc_Network cfg \<in> {[], ''tcp''} \<and>
       (\<exists>l nl. lsn = NativeL nl \<and> l \<in> fst ` set (sockets (snd (Listen E bootRegistry cfg addr n))) \<and> nativelySecured E cfg l nl)) \<or>
     (sc_Network cfg \<in> {''ws'', ''xhttp''} \<and>
       (\<exists>inner mc address p. lsn = XrayL inner mc \<and> ParseAddrPort (te_xnet E) addr = Inr (address, p) \<and>
          te_listenXray E address p mc = Some inner \<and> mc_ProtocolName mc = (if sc_Network cfg = ''ws'' then ''websocket'' else ''xhttp'') \<and>
          DecodeSettings (te_settingsOrd E) (te_unmarshal E (mc_ProtocolName mc)) (sc_Settings cfg) (te_zero E (mc_ProtocolName mc)) =
            Some (mc_ProtocolSettings mc) \<and>
          asksForSecurity E cfg mc)))"
proof -
  consider (tcp) "sc_Network cfg = [] \<or> sc_Network cfg = ''tcp''" | (ws) "sc_Network cfg = ''ws''" | (xhttp) "sc_Network cfg = ''xhttp''"
    using assms by (auto simp: Listen_def Get_def bootRegistry_eq Let_def split: if_splits)
  then show ?thesis
  proof cases
    case tcp
    then have L: "Listen E bootRegistry cfg addr n = tcpListen E addr cfg n"
      by (auto simp: Listen_def Get_def bootRegistry_eq implListen_def Let_def)
    from tcpListen_secured [OF assms [unfolded L]] obtain l nl where t: "lsn = NativeL nl"
      "l \<in> fst ` set (sockets (snd (tcpListen E addr cfg n)))" "nativelySecured E cfg l nl" by blast
    moreover have "effSecurity cfg \<in> {''none'', ''tls'', ''reality''}" using t(3) by (auto simp: nativelySecured_def)
    ultimately show ?thesis using tcp unfolding L by blast
  next
    case ws
    then have "fst (Listen E bootRegistry cfg addr n) = xrayListen E ''websocket'' addr cfg"
      by (simp add: Listen_def Get_def bootRegistry_eq implListen_def wsListen_def Let_def)
    from xrayListen_secured [OF assms [unfolded this]] ws show ?thesis by (auto simp: asksForSecurity_def)
  next
    case xhttp
    then have "fst (Listen E bootRegistry cfg addr n) = xrayListen E ''xhttp'' addr cfg"
      by (simp add: Listen_def Get_def bootRegistry_eq implListen_def xhttpListen_def Let_def)
    from xrayListen_secured [OF assms [unfolded this]] xhttp show ?thesis by (auto simp: asksForSecurity_def)
  qed
qed

definition exEnv :: "(string, unit, unit) tenv" where
  "exEnv = \<lparr>te_canBind = (\<lambda>_. True), te_load = (\<lambda>_. Some ()), te_readFile = (\<lambda>_. None), te_xnet = exXnet,
     te_unmarshal = (\<lambda>_ _. Some ()), te_zero = (\<lambda>_. ()), te_listenXray = (\<lambda>_ _ _. Some 5),
     te_settingsOrd = [], te_namesOrd = [], te_idsOrd = []\<rparr>"

definition exNet :: netw where
  "exNet = \<lparr>sockets = [], nextSocket = 0\<rparr>"

definition exCfg :: "string \<Rightarrow> stream_config" where
  "exCfg sec = \<lparr>sc_Network = [], sc_Settings = None, sc_Security = sec, sc_SecuritySettings = None\<rparr>"

text \<open>A WebSocket listener with TLS, and a plain tcp one.\<close>

definition exWsCfg :: stream_config where
  "exWsCfg = \<lparr>sc_Network = ''ws'', sc_Settings = None, sc_Security = ''tls'', sc_SecuritySettings = buildSecuritySettings exTLSStream\<rparr>"

theorem Listen_secures_witness:
  "(\<exists>inner mc t. fst (Listen exEnv bootRegistry exWsCfg (CHR '':'' # itoa 443) exNet) = Inr (XrayL inner mc) \<and>
      mc_ProtocolName mc = ''websocket'' \<and> mc_SecurityType mc = ''tls'' \<and> mc_TLS mc = Some t \<and> x_ServerName t = ''a.io'') \<and>
   (\<exists>l. fst (Listen exEnv bootRegistry (exCfg []) '':443'' exNet) = Inr (NativeL (RawListener l)))"
proof (rule conjI)
  have d: "DecodeTLSConfig (buildSecuritySettings exTLSStream) = Inr exTLSTyped"
    by (simp add: exTLSStream_def buildSecuritySettings_def DecodeTLSConfig_built exTLSTyped_def)
      (simp add: exTLS_def versionOf_def tlsVersionMap_def)
  obtain x where x: "BuildXrayTLSConfig (\<lambda>_. None) (buildSecuritySettings exTLSStream) = Inr x" "x_ServerName x = ''a.io''"
    by (simp add: BuildXrayTLSConfig_def d xrayKeyPair_def) (simp add: exTLSTyped_def)
  have a: "ParseAddrPort exXnet (CHR '':'' # itoa 443) = Inr (''0.0.0.0'', 443)"
    using ParseAddrPort_listen [of exXnet 443] by (simp add: exXnet_def is_i64_def)
  obtain lsn where l: "fst (Listen exEnv bootRegistry exWsCfg (CHR '':'' # itoa 443) exNet) = Inr lsn"
    by (simp add: Listen_def Get_def bootRegistry_eq implListen_def wsListen_def xrayListen_def exWsCfg_def xraySecurity_def
        DecodeSettings_def exEnv_def a x(1))
  from Listen_secures [OF l] obtain inner mc where m: "lsn = XrayL inner mc" "mc_ProtocolName mc = ''websocket''"
    "asksForSecurity exEnv exWsCfg mc" by (auto simp: exWsCfg_def)
  from m(3) x(1) have "mc_SecurityType mc = ''tls''" "mc_TLS mc = Some x"
    by (auto simp: asksForSecurity_def effSecurity_def exWsCfg_def exEnv_def)
  with l m x(2) show "\<exists>inner mc t. fst (Listen exEnv bootRegistry exWsCfg (CHR '':'' # itoa 443) exNet) = Inr (XrayL inner mc) \<and>
      mc_ProtocolName mc = ''websocket'' \<and> mc_SecurityType mc = ''tls'' \<and> mc_TLS mc = Some t \<and> x_ServerName t = ''a.io''" by blast
next
  obtain lsn where l: "fst (Listen exEnv bootRegistry (exCfg []) '':443'' exNet) = Inr lsn"
    by (simp add: Listen_def Get_def bootRegistry_eq implListen_def tcpListen_def netListen_def Wrap_def
        exCfg_def exEnv_def exNet_def)
  from Listen_secures [OF l] l show "\<exists>l. fst (Listen exEnv bootRegistry (exCfg []) '':443'' exNet) = Inr (NativeL (RawListener l))"
    by (auto simp: effSecurity_def nativelySecured_def exCfg_def)
qed

text \<open>C37: when the security settings of a tcp listener are refused, the socket that was already bound is not
  closed: the address stays taken, and every later attempt to listen on it fails, also with settings that
  are valid.\<close>

theorem tcp_listen_leaks:
  assumes "sc_Network cfg \<in> {[], ''tcp''}" "te_canBind E addr" "addr \<notin> snd ` set (sockets n)"
    and "Wrap (te_load E) (nextSocket n) (sc_Security cfg) (sc_SecuritySettings cfg) = Inl e"
  shows "fst (Listen E bootRegistry cfg addr n) = Inl (TE_Security e) \<and>
    (\<forall>cfg'. sc_Network cfg' \<in> {[], ''tcp''} \<longrightarrow>
       fst (Listen E bootRegistry cfg' addr (snd (Listen E bootRegistry cfg addr n))) = Inl TE_Bind)"
  using assms
  by (auto simp: Listen_def Get_def bootRegistry_eq implListen_def tcpListen_def netListen_def Let_def)

theorem tcp_listen_leaks_witness:
  "fst (Listen exEnv bootRegistry (exCfg []) '':443'' (snd (Listen exEnv bootRegistry (exCfg ''tls'') '':443'' exNet))) = Inl TE_Bind"
proof -
  have "Wrap (te_load exEnv) (nextSocket exNet) (sc_Security (exCfg ''tls'')) (sc_SecuritySettings (exCfg ''tls'')) = Inl NoSettings"
    by (simp add: Wrap_def WrapTLS_def DecodeTLSConfig_def exCfg_def)
  from tcp_listen_leaks [OF _ _ _ this, of "'':443''"] show ?thesis
    by (simp add: exCfg_def exEnv_def exNet_def)
qed

end
