(* ===== verification/Start_Loop.thy ===== *)
theory Start_Loop
  imports Config_Update
begin

text \<open>
  \<open>proxy/vless/server.go\<close>, \<open>Start\<close>: the loop that binds a listener for the current port and transport and
  accepts on it, run by its own goroutine while \<open>UpdateConfig\<close> runs on the one that syncs. Each step is one
  critical section or one blocking call: reading the settings under the read lock, \<open>transport.Listen\<close>, storing
  the listener under the lock, and the end of \<open>Accept\<close>. \<open>transport.Listen\<close> is an argument: whether the attempt
  number \<open>n\<close> for a port and stream succeeds. Listeners are numbered.
\<close>

section \<open>Steps\<close>

datatype start_phase = Reading | Binding int stream | Bound nat | Accepting nat

record ('l, 'd) start_state =
  sv :: "('l, 'd) world"
  phase :: start_phase
  boundTo :: "nat \<rightharpoonup> int \<times> stream"
  nextLn :: nat

datatype start_event = ReadSettings | ListenCall bool | StoreListener | AcceptEnds | Reload config

text \<open>\<open>None\<close>: the step is not possible now. With port 0 the loop sleeps and reads again, and it does the same
  when \<open>Listen\<close> failed. \<open>AcceptEnds\<close> is any error of \<open>Accept\<close>: the listener was closed, or the call failed otherwise
  (no file descriptors left, say) and the listener is as open as before.\<close>

definition startStep :: "('l, 'd) lib \<Rightarrow> start_event \<Rightarrow> ('l, 'd) start_state \<Rightarrow> ('l, 'd) start_state option" where
  "startStep L ev s =
     (case ev of
        ReadSettings \<Rightarrow>
          (case phase s of
             Reading \<Rightarrow> Some (if port (sv s) = 0 then s
                             else s\<lparr>phase := Binding (port (sv s)) (stream_cfg (sv s))\<rparr>)
           | _ \<Rightarrow> None)
      | ListenCall ok \<Rightarrow>
          (case phase s of
             Binding p st \<Rightarrow>
               Some (if ok then s\<lparr>phase := Bound (nextLn s), boundTo := (boundTo s)(nextLn s \<mapsto> (p, st)),
                                  nextLn := Suc (nextLn s)\<rparr>
                     else s\<lparr>phase := Reading\<rparr>)
           | _ \<Rightarrow> None)
      | StoreListener \<Rightarrow>
          (case phase s of
             Bound k \<Rightarrow> Some (s\<lparr>phase := Accepting k, sv := (sv s)\<lparr>ln := Some k\<rparr>\<rparr>)
           | _ \<Rightarrow> None)
      | AcceptEnds \<Rightarrow>
          (case phase s of
             Accepting k \<Rightarrow> Some (s\<lparr>phase := Reading\<rparr>)
           | _ \<Rightarrow> None)
      | Reload cfg \<Rightarrow> Some (s\<lparr>sv := UpdateConfig L cfg (sv s)\<rparr>))"

definition startInit :: "('l, 'd) world \<Rightarrow> ('l, 'd) start_state" where
  "startInit w = \<lparr>sv = w, phase = Reading, boundTo = Map.empty, nextLn = 0\<rparr>"

inductive start_reach :: "('l, 'd) lib \<Rightarrow> ('l, 'd) start_state \<Rightarrow> ('l, 'd) start_state \<Rightarrow> bool" for L where
  refl: "start_reach L s s"
| step: "start_reach L s s' \<Longrightarrow> startStep L ev s' = Some s'' \<Longrightarrow> start_reach L s s''"

fun startRun :: "('l, 'd) lib \<Rightarrow> start_event list \<Rightarrow> ('l, 'd) start_state \<Rightarrow> ('l, 'd) start_state option" where
  "startRun L [] s = Some s"
| "startRun L (ev # evs) s = Option.bind (startStep L ev s) (startRun L evs)"

lemma startRun_reach: "startRun L evs s' = Some s'' \<Longrightarrow> start_reach L s s' \<Longrightarrow> start_reach L s s''"
  by (induction evs arbitrary: s') (auto simp: bind_eq_Some_conv intro: start_reach.step)

section \<open>Invariants\<close>

text \<open>The accepting loop runs on the stored listener; listener numbers are fresh; only stored listeners are
  ever closed.\<close>

definition start_inv :: "('l, 'd) start_state \<Rightarrow> bool" where
  "start_inv s \<longleftrightarrow>
     (\<forall>k. phase s = Accepting k \<longrightarrow> ln (sv s) = Some k) \<and>
     (\<forall>k. phase s = Bound k \<or> phase s = Accepting k \<longrightarrow> boundTo s k \<noteq> None) \<and>
     (\<forall>k. boundTo s k \<noteq> None \<longrightarrow> k < nextLn s) \<and>
     (\<forall>k \<in> closedLns (sv s) \<union> set_option (ln (sv s)). k < nextLn s) \<and>
     (\<forall>k. phase s = Bound k \<longrightarrow> k \<notin> closedLns (sv s) \<union> set_option (ln (sv s)))"

lemma startStep_inv:
  assumes "startStep L ev s = Some s'" "start_inv s"
  shows "start_inv s'"
proof (cases ev)
  case (Reload cfg)
  then have s': "s' = s\<lparr>sv := UpdateConfig L cfg (sv s)\<rparr>" using assms(1) by (simp add: startStep_def)
  show ?thesis using assms(2) unfolding s' start_inv_def by (simp add: UpdateConfig_closedLns)
next
  case (ListenCall ok)
  then obtain p st where "phase s = Binding p st" using assms(1) by (simp add: startStep_def split: start_phase.splits)
  with assms ListenCall show ?thesis
    by (auto simp: startStep_def start_inv_def less_SucI split: if_splits)
next
  case StoreListener
  then obtain k where "phase s = Bound k" using assms(1) by (simp add: startStep_def split: start_phase.splits)
  with assms StoreListener show ?thesis by (auto simp: startStep_def start_inv_def)
next
  case AcceptEnds
  then obtain k where "phase s = Accepting k" using assms(1) by (simp add: startStep_def split: start_phase.splits)
  with assms AcceptEnds show ?thesis by (auto simp: startStep_def start_inv_def split: if_splits)
next
  case ReadSettings
  then have "phase s = Reading" using assms(1) by (simp add: startStep_def split: start_phase.splits)
  with assms ReadSettings show ?thesis by (auto simp: startStep_def start_inv_def split: if_splits)
qed

lemma start_reach_inv: "start_reach L s s' \<Longrightarrow> start_inv s \<Longrightarrow> start_inv s'"
  by (induction rule: start_reach.induct) (auto intro: startStep_inv)

lemma startInit_inv: "ln w = None \<Longrightarrow> closedLns w = {} \<Longrightarrow> start_inv (startInit w)"
  by (simp add: start_inv_def startInit_def)

text \<open>A listener that is open and was not overtaken by a reload is bound to the current settings.\<close>

definition current :: "('l, 'd) start_state \<Rightarrow> bool" where
  "current s \<longleftrightarrow>
     (case phase s of
        Reading \<Rightarrow> True
      | Binding p st \<Rightarrow> p = port (sv s) \<and> streamEqual st (stream_cfg (sv s))
      | Bound k \<Rightarrow> (\<exists>p st. boundTo s k = Some (p, st) \<and> p = port (sv s) \<and> streamEqual st (stream_cfg (sv s)))
      | Accepting k \<Rightarrow> k \<notin> closedLns (sv s) \<longrightarrow>
          (\<exists>p st. boundTo s k = Some (p, st) \<and> p = port (sv s) \<and> streamEqual st (stream_cfg (sv s))))"

lemma streamEqual_sym: "streamEqual a b \<Longrightarrow> streamEqual b a"
  by (auto simp: streamEqual_def split: if_splits)

lemma streamEqual_trans: "streamEqual a b \<Longrightarrow> streamEqual b c \<Longrightarrow> streamEqual a c"
  by (auto simp: streamEqual_def split: if_splits)

text \<open>A reload that does not hit the window between reading the settings and storing the listener.\<close>

definition outsideWindow :: "start_event \<Rightarrow> ('l, 'd) start_state \<Rightarrow> bool" where
  "outsideWindow ev s \<longleftrightarrow>
     (case ev of Reload cfg \<Rightarrow> (case phase s of Binding _ _ \<Rightarrow> \<not> configChanged cfg (sv s) | Bound _ \<Rightarrow> \<not> configChanged cfg (sv s) | _ \<Rightarrow> True)
      | _ \<Rightarrow> True)"

lemma startStep_current:
  assumes "startStep L ev s = Some s'" "start_inv s" "current s" "outsideWindow ev s"
  shows "current s'"
proof (cases ev)
  case (Reload cfg)
  then have s': "s' = s\<lparr>sv := UpdateConfig L cfg (sv s)\<rparr>" using assms(1) by (simp add: startStep_def)
  show ?thesis
  proof (cases "configChanged cfg (sv s)")
    case True
    with assms(2,4) Reload show ?thesis
      by (cases "phase s") (auto simp: s' current_def outsideWindow_def UpdateConfig_closedLns start_inv_def)
  next
    case False
    then have "port (sv s) = c_Port cfg" "streamEqual (stream_cfg (sv s)) (c_Stream cfg)"
      by (simp_all add: configChanged_def)
    with assms(3) False show ?thesis
      by (cases "phase s") (auto simp: s' current_def UpdateConfig_closedLns)
  qed
qed (use assms in \<open>cases "phase s"; auto simp: startStep_def current_def split: if_splits\<close>)+


inductive quiet_reach :: "('l, 'd) lib \<Rightarrow> ('l, 'd) start_state \<Rightarrow> ('l, 'd) start_state \<Rightarrow> bool" for L where
  refl: "quiet_reach L s s"
| step: "quiet_reach L s s' \<Longrightarrow> startStep L ev s' = Some s'' \<Longrightarrow> outsideWindow ev s' \<Longrightarrow> quiet_reach L s s''"

lemma quiet_reach_inv: "quiet_reach L s s' \<Longrightarrow> start_inv s \<and> current s \<Longrightarrow> start_inv s' \<and> current s'"
  by (induction rule: quiet_reach.induct) (blast intro: startStep_inv startStep_current)+

fun quietRun :: "('l, 'd) lib \<Rightarrow> start_event list \<Rightarrow> ('l, 'd) start_state \<Rightarrow> bool" where
  "quietRun L [] s = True"
| "quietRun L (ev # evs) s = (outsideWindow ev s \<and>
     (case startStep L ev s of None \<Rightarrow> False | Some s' \<Rightarrow> quietRun L evs s'))"

lemma startRun_quiet:
  "startRun L evs s' = Some s'' \<Longrightarrow> quietRun L evs s' \<Longrightarrow> quiet_reach L s s' \<Longrightarrow> quiet_reach L s s''"
  by (induction evs arbitrary: s') (auto simp: bind_eq_Some_conv, metis quiet_reach.step)

section \<open>Properties\<close>

text \<open>C27: as long as no reload falls between reading the settings and storing the listener, an open listener
  the server accepts on is always bound to the current port and transport, over any number of reloads,
  failed attempts and rebinds.\<close>

theorem accepting_is_current:
  assumes "quiet_reach L (startInit w) s" "ln w = None" "closedLns w = {}"
    and "phase s = Accepting k" "k \<notin> closedLns (sv s)"
  shows "ln (sv s) = Some k \<and>
    (\<exists>st. boundTo s k = Some (port (sv s), st) \<and> streamEqual st (stream_cfg (sv s)))"
proof -
  have "start_inv (startInit w) \<and> current (startInit w)"
    using startInit_inv [OF assms(2,3)] by (simp add: current_def startInit_def)
  from quiet_reach_inv [OF assms(1) this] assms(4,5) show ?thesis
    by (auto simp: start_inv_def current_def)
qed

text \<open>The example: a node configured for port 443, then for 8443.\<close>

definition exCfg1 :: config where "exCfg1 = exConfig ''tcp'' ''none'' []"
definition exCfg2 :: config where "exCfg2 = exCfg1\<lparr>c_Port := 8443\<rparr>"

definition exStart :: "(nat \<times> int \<times> int, unit) start_state" where
  "exStart = startInit exNew"

abbreviation quietEvents :: "start_event list" where
  "quietEvents \<equiv> [Reload exCfg1, ReadSettings, ListenCall True, StoreListener]"

lemma exCfg_simps [simp]: "c_Port exCfg1 = 443" "c_Port exCfg2 = 8443" "c_Stream exCfg2 = c_Stream exCfg1"
  by (simp_all add: exCfg1_def exCfg2_def exConfig_def)

lemma exStart_simps [simp]:
  "phase exStart = Reading" "nextLn exStart = 0" "closedLns (sv exStart) = {}" "ln (sv exStart) = None" "port (sv exStart) = 0"
  by (simp_all add: exStart_def startInit_def NewServer_def)

definition exBound :: "(nat \<times> int \<times> int, unit) start_state" where
  "exBound = the (startRun exLib quietEvents exStart)"

lemma exBound_run: "startRun exLib quietEvents exStart = Some exBound" "quietRun exLib quietEvents exStart"
  "phase exBound = Accepting 0" "closedLns (sv exBound) = {}" "port (sv exBound) = 443"
  by (simp_all add: exBound_def startStep_def outsideWindow_def UpdateConfig_closedLns)

theorem accepting_is_current_witness:
  "\<exists>st. boundTo exBound 0 = Some (443, st)"
proof -
  have "quiet_reach exLib (startInit exNew) exBound"
    using startRun_quiet [OF exBound_run(1,2) quiet_reach.refl] by (simp add: exStart_def)
  from accepting_is_current [OF this _ _ exBound_run(3)] exBound_run(4,5) show ?thesis
    by (auto simp: NewServer_def)
qed

text \<open>A reload that changes the port or the transport while the server accepts closes its listener, and
  the loop then rebinds: after the end of \<open>Accept\<close>, reading the settings and a successful \<open>Listen\<close> it accepts
  on a new, open listener bound to exactly the new port and transport.\<close>

lemma reload_rebinds:
  assumes "start_inv s" "phase s = Accepting k" "configChanged cfg (sv s)" "c_Port cfg \<noteq> 0"
  shows "\<exists>s'. startRun L [Reload cfg, AcceptEnds, ReadSettings, ListenCall True, StoreListener] s = Some s' \<and>
     (\<exists>k'. phase s' = Accepting k' \<and> k' \<notin> closedLns (sv s') \<and> k' \<noteq> k \<and>
       (\<exists>st. boundTo s' k' = Some (c_Port cfg, st) \<and> streamEqual st (c_Stream cfg)))"
proof -
  have k: "ln (sv s) = Some k" "k < nextLn s" "\<forall>j \<in> closedLns (sv s). j < nextLn s"
    using assms(1,2) by (auto simp: start_inv_def)
  then show ?thesis
    using assms by (auto simp: startStep_def UpdateConfig_closedLns)
qed

lemma exBound_inv: "start_inv exBound"
proof -
  have "start_inv exStart" unfolding exStart_def by (rule startInit_inv) (simp_all add: NewServer_def)
  with startRun_reach [OF exBound_run(1) start_reach.refl] show ?thesis by (rule start_reach_inv)
qed

lemma reload_rebinds_witness:
  "\<exists>s' k'. startRun exLib [Reload exCfg2, AcceptEnds, ReadSettings, ListenCall True, StoreListener] exBound = Some s' \<and>
     phase s' = Accepting k' \<and> k' \<noteq> 0"
proof -
  have ch: "configChanged exCfg2 (sv exBound)" by (simp add: configChanged_def exBound_run)
  show ?thesis
    using reload_rebinds [OF exBound_inv exBound_run(3) ch, of exLib] by auto
qed

text \<open>An error of \<open>Accept\<close> with the listener still open ends the loop without closing it. On a system where a port
  has at most one listener, no attempt to bind the same port again succeeds, so without a reload the server never
  accepts again.\<close>

definition taken :: "int \<Rightarrow> ('l, 'd) start_state \<Rightarrow> bool" where
  "taken p s \<longleftrightarrow> (\<exists>k st. boundTo s k = Some (p, st) \<and> k \<notin> closedLns (sv s))"

definition exclusiveStep :: "('l, 'd) lib \<Rightarrow> start_event \<Rightarrow> ('l, 'd) start_state \<Rightarrow> ('l, 'd) start_state option" where
  "exclusiveStep L ev s =
     (if ev = ListenCall True \<and> (\<exists>p st. phase s = Binding p st \<and> taken p s) then None else startStep L ev s)"

definition wedged :: "('l, 'd) start_state \<Rightarrow> bool" where
  "wedged s \<longleftrightarrow> taken (port (sv s)) s \<and> (phase s = Reading \<or> (\<exists>st. phase s = Binding (port (sv s)) st))"

lemma taken_phase [simp]: "taken p (s\<lparr>phase := x\<rparr>) = taken p s"
  by (simp add: taken_def)

lemma wedged_step:
  assumes "exclusiveStep L ev s = Some s'" "\<forall>cfg. ev \<noteq> Reload cfg" "wedged s"
  shows "wedged s'"
proof (cases ev)
  case ReadSettings
  with assms show ?thesis by (auto simp: exclusiveStep_def startStep_def wedged_def split: start_phase.splits if_splits)
next
  case (ListenCall ok)
  with assms have "\<not> ok" "s' = s\<lparr>phase := Reading\<rparr>"
    by (auto simp: exclusiveStep_def startStep_def wedged_def split: start_phase.splits if_splits)
  with assms(3) show ?thesis by (simp add: wedged_def)
next
  case StoreListener
  with assms show ?thesis by (auto simp: exclusiveStep_def startStep_def wedged_def)
next
  case AcceptEnds
  with assms show ?thesis by (auto simp: exclusiveStep_def startStep_def wedged_def)
next
  case (Reload cfg)
  with assms(2) have False by blast
  then show ?thesis ..
qed

interpretation wedge: machine "exclusiveStep L" wedged "\<lambda>e. \<forall>cfg. e \<noteq> Reload cfg" for L
  by unfold_locales (rule wedged_step)

lemma accept_error_wedges:
  assumes "start_inv s" "current s" "phase s = Accepting k" "k \<notin> closedLns (sv s)"
    and "startStep L AcceptEnds s = Some s1" "runs (exclusiveStep L) s1 es s2" "list_all (\<lambda>e. \<forall>cfg. e \<noteq> Reload cfg) es"
  shows "phase s2 \<noteq> Accepting j"
proof -
  have s1: "s1 = s\<lparr>phase := Reading\<rparr>" using assms(3,5) by (simp add: startStep_def)
  have "taken (port (sv s)) s" using assms(2,3,4) by (auto simp: taken_def current_def)
  then have "wedged s1" by (simp add: s1 wedged_def)
  from wedge.run_inv [OF assms(6,7) this] show ?thesis by (auto simp: wedged_def)
qed

text \<open>C28: a reload that falls into the window is lost for the listener: the server ends up accepting on an open
  listener of the old port or transport, and sending the same configuration again does not close it.\<close>

theorem reload_in_window_is_lost:
  assumes "start_inv s" "phase s = Binding p st" "configChanged cfg (sv s)"
    and "p \<noteq> c_Port cfg \<or> \<not> streamEqual st (c_Stream cfg)"
  shows "\<exists>s' k. startRun L [Reload cfg, ListenCall True, StoreListener, Reload cfg] s = Some s' \<and>
     phase s' = Accepting k \<and> k \<notin> closedLns (sv s') \<and> boundTo s' k = Some (p, st) \<and>
     port (sv s') = c_Port cfg \<and> streamEqual (stream_cfg (sv s')) (c_Stream cfg)"
proof -
  have k: "\<forall>j \<in> closedLns (sv s) \<union> set_option (ln (sv s)). j < nextLn s"
    using assms(1) by (auto simp: start_inv_def)
  then have "nextLn s \<notin> closedLns (sv s) \<union> set_option (ln (sv s))" by blast
  with assms(2) show ?thesis
    by (auto simp: startStep_def UpdateConfig_closedLns configChanged_def)
qed

definition exBinding :: "(nat \<times> int \<times> int, unit) start_state" where
  "exBinding = the (startRun exLib [Reload exCfg1, ReadSettings] exStart)"

lemma exBinding_run: "startRun exLib [Reload exCfg1, ReadSettings] exStart = Some exBinding"
  "phase exBinding = Binding 443 (stream_cfg (sv exBinding))" "port (sv exBinding) = 443"
  by (simp_all add: exBinding_def startStep_def)

theorem reload_in_window_is_lost_witness:
  "\<exists>s' k st. startRun exLib [Reload exCfg2, ListenCall True, StoreListener, Reload exCfg2] exBinding = Some s' \<and>
     phase s' = Accepting k \<and> boundTo s' k = Some (443, st) \<and> port (sv s') = 8443"
proof -
  have "start_inv exStart" unfolding exStart_def by (rule startInit_inv) (simp_all add: NewServer_def)
  with startRun_reach [OF exBinding_run(1) start_reach.refl] have inv: "start_inv exBinding" by (rule start_reach_inv)
  have ch: "configChanged exCfg2 (sv exBinding)" by (simp add: configChanged_def exBinding_run)
  show ?thesis
    using reload_in_window_is_lost [OF inv exBinding_run(2) ch, of exLib] by auto
qed
end
