(* ===== verification/Log_Level.thy ===== *)
theory Log_Level
  imports Go_Std
begin

text \<open>
  \<open>transport/xraybridge/log.go\<close> and the log set-up of \<open>cmd/root.go\<close>: xray-core's severities, the parser of
  the configured level, and the two calls the program makes at start-up. The severities are ordered by
  verbosity; xray-core's filter lets a message through when its severity is at most the configured one.
\<close>

section \<open>Severities\<close>

datatype severity = Severity_Unknown | Severity_Error | Severity_Warning | Severity_Info | Severity_Debug

fun verbosity :: "severity \<Rightarrow> nat" where
  "verbosity Severity_Unknown = 0"
| "verbosity Severity_Error = 1"
| "verbosity Severity_Warning = 2"
| "verbosity Severity_Info = 3"
| "verbosity Severity_Debug = 4"

lemma verbosity_inj: "verbosity a = verbosity b \<Longrightarrow> a = b"
  by (cases a; cases b) auto

instantiation severity :: linorder
begin

definition less_eq_severity :: "severity \<Rightarrow> severity \<Rightarrow> bool" where
  "less_eq_severity a b \<longleftrightarrow> verbosity a \<le> verbosity b"

definition less_severity :: "severity \<Rightarrow> severity \<Rightarrow> bool" where
  "less_severity a b \<longleftrightarrow> verbosity a < verbosity b"

instance
  by standard (auto simp: less_eq_severity_def less_severity_def intro: verbosity_inj)

end

section \<open>parseXrayLogLevel\<close>

text \<open>The result is the severity and whether the level was recognised.\<close>

definition parseXrayLogLevel :: "string \<Rightarrow> severity \<times> bool" where
  "parseXrayLogLevel s0 =
     (let s = toLower (trimSpace s0) in
      if s = ''trace'' \<or> s = ''debug'' then (Severity_Debug, True)
      else if s = ''info'' then (Severity_Info, True)
      else if s = ''warn'' \<or> s = ''warning'' then (Severity_Warning, True)
      else if s = ''error'' \<or> s = ''fatal'' \<or> s = ''panic'' then (Severity_Error, True)
      else if s = ''none'' then (Severity_Unknown, True)
      else (Severity_Warning, False))"

section \<open>InitLogger and start-up\<close>

text \<open>The state is the severity filter of xray-core's handler; \<open>None\<close> is the unfiltered default.\<close>

definition InitLogger :: "string \<Rightarrow> severity option \<Rightarrow> bool \<times> severity option" where
  "InitLogger level st =
     (let (sev, ok) = parseXrayLogLevel level in if \<not> ok then (False, st) else (True, Some sev))"

text \<open>\<open>run\<close> of \<open>cmd/root.go\<close>: the logrus level (\<open>logrusParse\<close> is \<open>log.ParseLevel\<close>) and then xray-core's, with a
  fallback.\<close>

definition setupLogging :: "(string \<Rightarrow> 'v option) \<Rightarrow> string \<Rightarrow> 'v \<times> severity option \<Rightarrow> 'v \<times> severity option" where
  "setupLogging logrusParse level st =
     (let lr = (if level \<noteq> [] then (case logrusParse level of None \<Rightarrow> fst st | Some v \<Rightarrow> v) else fst st);
          (ok, x) = InitLogger level (snd st);
          x' = (if ok then x else snd (InitLogger ''warning'' x))
      in (lr, x'))"

text \<open>Whether a message of severity \<open>m\<close> is logged under a filter.\<close>

definition logged :: "severity option \<Rightarrow> severity \<Rightarrow> bool" where
  "logged st m \<longleftrightarrow> (case st of None \<Rightarrow> True | Some sev \<Rightarrow> m \<le> sev)"

section \<open>Properties\<close>

lemma parse_warning: "parseXrayLogLevel ''warning'' = (Severity_Warning, True)"
  by code_simp

text \<open>After start-up xray-core's logger is always filtered, whatever the configured level: by the severity of
  the level when it is one of the known names, and by ``warning'' otherwise; so errors and warnings are never
  lost except under the levels that ask for less, and debug output appears only when asked for.\<close>

lemma startup_logging:
  "\<exists>sev. snd (setupLogging lp level st) = Some sev \<and>
     sev = (if snd (parseXrayLogLevel level) then fst (parseXrayLogLevel level) else Severity_Warning) \<and>
     (logged (snd (setupLogging lp level st)) Severity_Debug \<longleftrightarrow> toLower (trimSpace level) \<in> {''trace'', ''debug''}) \<and>
     (\<not> logged (snd (setupLogging lp level st)) Severity_Error \<longleftrightarrow> toLower (trimSpace level) = ''none'')"
proof -
  have w: "snd (InitLogger ''warning'' x) = Some Severity_Warning" for x
    by (simp add: InitLogger_def parse_warning)
  have f: "snd (setupLogging lp level st) = Some (if snd (parseXrayLogLevel level) then fst (parseXrayLogLevel level) else Severity_Warning)"
    by (simp add: setupLogging_def InitLogger_def parse_warning Let_def split: prod.split)
  show ?thesis
    unfolding f by (auto simp: parseXrayLogLevel_def Let_def logged_def less_eq_severity_def)
qed

end
