(* ===== verification/Api_Client.thy ===== *)
theory Api_Client
  imports Model_Types
begin

text \<open>
  \<open>api/client.go\<close>: the client of the manager's API. The HTTP library with its retries is third-party: what a
  request finally returns is an argument, \<open>None\<close> for an error, otherwise a response with its status, its \<open>ETag\<close>
  header and what decoding its body gives (\<open>None\<close>: the body is not valid JSON for the type). \<open>FetchConfig\<close> and
  \<open>FetchUsers\<close> are conditional requests with the same contract, stated as a locale and interpreted for both.
\<close>

section \<open>Requests, responses, the client\<close>

record client =
  BaseURL :: string
  NodeID :: string
  Token :: string
  configETag :: string
  usersETag :: string

definition NewClient :: "string \<Rightarrow> string \<Rightarrow> string \<Rightarrow> client" where
  "NewClient baseURL nid token =
     \<lparr>BaseURL = baseURL, NodeID = nid, Token = token, configETag = [], usersETag = []\<rparr>"

record request =
  rq_url :: string
  rq_node_id :: string
  rq_token :: string
  rq_IfNoneMatch :: "string option"

record 'x response =
  rs_status :: int
  rs_etag :: string
  rs_body :: "'x option"

datatype fetch_error = RequestFailed | ErrNotModified | ErrNoUsageEndpoint | BadStatus int | BadBody

definition condHeader :: "string \<Rightarrow> string option" where
  "condHeader tag = (if tag = [] then None else Some tag)"

definition configRequest :: "client \<Rightarrow> request" where
  "configRequest c = \<lparr>rq_url = BaseURL c @ ''/config'', rq_node_id = NodeID c, rq_token = Token c,
     rq_IfNoneMatch = condHeader (configETag c)\<rparr>"

definition usersRequest :: "client \<Rightarrow> request" where
  "usersRequest c = \<lparr>rq_url = BaseURL c @ ''/users'', rq_node_id = NodeID c, rq_token = Token c,
     rq_IfNoneMatch = condHeader (usersETag c)\<rparr>"

section \<open>The four calls\<close>

definition FetchConfig :: "config response option \<Rightarrow> client \<Rightarrow> (fetch_error + config) \<times> client" where
  "FetchConfig res c =
     (case res of
        None \<Rightarrow> (Inl RequestFailed, c)
      | Some resp \<Rightarrow>
          (if rs_status resp = 304 then (Inl ErrNotModified, c)
           else if rs_status resp \<noteq> 200 then (Inl (BadStatus (rs_status resp)), c)
           else (let c1 = c\<lparr>configETag := rs_etag resp\<rparr>
                 in case rs_body resp of None \<Rightarrow> (Inl BadBody, c1) | Some cfg \<Rightarrow> (Inr cfg, c1))))"

definition FetchUsers :: "user list response option \<Rightarrow> client \<Rightarrow> (fetch_error + user list) \<times> client" where
  "FetchUsers res c =
     (case res of
        None \<Rightarrow> (Inl RequestFailed, c)
      | Some resp \<Rightarrow>
          (if rs_status resp = 304 then (Inl ErrNotModified, c)
           else if rs_status resp \<noteq> 200 then (Inl (BadStatus (rs_status resp)), c)
           else (let c1 = c\<lparr>usersETag := rs_etag resp\<rparr>
                 in case rs_body resp of None \<Rightarrow> (Inl BadBody, c1) | Some us \<Rightarrow> (Inr us, c1))))"

definition FetchUsage :: "user_usage list response option \<Rightarrow> fetch_error + user_usage list" where
  "FetchUsage res =
     (case res of
        None \<Rightarrow> Inl RequestFailed
      | Some resp \<Rightarrow>
          (if rs_status resp = 404 then Inl ErrNoUsageEndpoint
           else if rs_status resp \<noteq> 200 then Inl (BadStatus (rs_status resp))
           else (case rs_body resp of None \<Rightarrow> Inl BadBody | Some us \<Rightarrow> Inr us)))"

definition ReportTraffic :: "unit response option \<Rightarrow> fetch_error option" where
  "ReportTraffic res =
     (case res of
        None \<Rightarrow> Some RequestFailed
      | Some resp \<Rightarrow> (if rs_status resp \<noteq> 200 then Some (BadStatus (rs_status resp)) else None))"

section \<open>The contract of a conditional request\<close>

text \<open>A manager that serves one version of a resource, labelled by a tag: it answers ``not modified'' to a
  request that names the tag and sends the body otherwise.\<close>

definition serve :: "string \<Rightarrow> 'x option \<Rightarrow> string option \<Rightarrow> 'x response option" where
  "serve tag body cond =
     Some (if cond = Some tag then \<lparr>rs_status = 304, rs_etag = tag, rs_body = None\<rparr>
           else \<lparr>rs_status = 200, rs_etag = tag, rs_body = body\<rparr>)"

locale conditional_fetch =
  fixes fetch :: "'x response option \<Rightarrow> client \<Rightarrow> (fetch_error + 'x) \<times> client"
    and tagOf :: "client \<Rightarrow> string"
  assumes fetch_ok: "rs_status r = 200 \<Longrightarrow> rs_body r = Some x \<Longrightarrow>
      fst (fetch (Some r) c) = Inr x \<and> tagOf (snd (fetch (Some r) c)) = rs_etag r"
    and fetch_bad: "rs_status r = 200 \<Longrightarrow> rs_body r = None \<Longrightarrow>
      fst (fetch (Some r) c) = Inl BadBody \<and> tagOf (snd (fetch (Some r) c)) = rs_etag r"
    and fetch_304: "rs_status r = 304 \<Longrightarrow> fetch (Some r) c = (Inl ErrNotModified, c)"
    and fetch_other: "rs_status r \<noteq> 200 \<Longrightarrow> rs_status r \<noteq> 304 \<Longrightarrow> \<exists>e. e \<noteq> ErrNotModified \<and> fetch (Some r) c = (Inl e, c)"
    and fetch_fail: "\<exists>e. e \<noteq> ErrNotModified \<and> fetch None c = (Inl e, c)"
begin

lemma fresh: "tag \<noteq> [] \<Longrightarrow> tagOf c \<noteq> tag \<Longrightarrow>
    fst (fetch (serve tag (Some x) (condHeader (tagOf c))) c) = Inr x \<and>
    tagOf (snd (fetch (serve tag (Some x) (condHeader (tagOf c))) c)) = tag"
  by (auto simp: serve_def condHeader_def fetch_ok)

lemma unchanged: "tag \<noteq> [] \<Longrightarrow> tagOf c = tag \<Longrightarrow>
    fetch (serve tag body (condHeader (tagOf c))) c = (Inl ErrNotModified, c)"
  by (simp add: serve_def condHeader_def fetch_304)

lemma sticky_error: "tag \<noteq> [] \<Longrightarrow> tagOf c \<noteq> tag \<Longrightarrow>
    fst (fetch (serve tag None (condHeader (tagOf c))) c) = Inl BadBody \<and>
    (\<forall>body. fetch (serve tag body (condHeader (tagOf (snd (fetch (serve tag None (condHeader (tagOf c))) c)))))
        (snd (fetch (serve tag None (condHeader (tagOf c))) c)) =
      (Inl ErrNotModified, snd (fetch (serve tag None (condHeader (tagOf c))) c)))"
  by (auto simp: serve_def condHeader_def fetch_bad fetch_304)

lemma failure_keeps: "fst (fetch r c) = Inl e \<Longrightarrow> e \<noteq> BadBody \<Longrightarrow> snd (fetch r c) = c"
proof (cases r)
  case None
  then show ?thesis using fetch_fail [of c] by auto
next
  case (Some q)
  assume e: "fst (fetch r c) = Inl e" "e \<noteq> BadBody"
  consider "rs_status q = 304" | "rs_status q = 200" | "rs_status q \<noteq> 200" "rs_status q \<noteq> 304" by blast
  then show ?thesis
  proof cases
    case 2
    then show ?thesis using e Some fetch_ok [of q _ c] fetch_bad [of q c] by (cases "rs_body q") auto
  next
    case 3
    then show ?thesis using fetch_other [of q c] Some by auto
  qed (use fetch_304 Some in auto)
qed

end

interpretation cfgf: conditional_fetch FetchConfig configETag
  by unfold_locales (auto simp: FetchConfig_def Let_def split: option.splits)

interpretation usrf: conditional_fetch FetchUsers usersETag
  by unfold_locales (auto simp: FetchUsers_def Let_def split: option.splits)

section \<open>Properties\<close>

text \<open>Pulling the configuration and the user set by tag works: a version the client does not have yet is
  delivered and its tag remembered, a version it has is reported as unchanged, and every failure except an
  undecodable body leaves the client as it was, so the next pull asks for the same thing again.\<close>

lemma fetch_by_tag:
  assumes "tag \<noteq> []"
  shows "(configETag c \<noteq> tag \<longrightarrow>
      fst (FetchConfig (serve tag (Some cfg) (rq_IfNoneMatch (configRequest c))) c) = Inr cfg \<and>
      configETag (snd (FetchConfig (serve tag (Some cfg) (rq_IfNoneMatch (configRequest c))) c)) = tag) \<and>
    (configETag c = tag \<longrightarrow>
      FetchConfig (serve tag (Some cfg) (rq_IfNoneMatch (configRequest c))) c = (Inl ErrNotModified, c)) \<and>
    (usersETag c \<noteq> tag \<longrightarrow>
      fst (FetchUsers (serve tag (Some us) (rq_IfNoneMatch (usersRequest c))) c) = Inr us) \<and>
    (usersETag c = tag \<longrightarrow>
      FetchUsers (serve tag (Some us) (rq_IfNoneMatch (usersRequest c))) c = (Inl ErrNotModified, c)) \<and>
    (\<forall>r e. fst (FetchConfig r c) = Inl e \<and> e \<noteq> BadBody \<longrightarrow> snd (FetchConfig r c) = c) \<and>
    (\<forall>r e. fst (FetchUsers r c) = Inl e \<and> e \<noteq> BadBody \<longrightarrow> snd (FetchUsers r c) = c)"
  using assms cfgf.fresh cfgf.unchanged cfgf.failure_keeps usrf.fresh usrf.unchanged usrf.failure_keeps
  by (simp add: configRequest_def usersRequest_def)

lemma fetch_by_tag_witness:
  "fst (FetchUsers (serve ''v2'' (Some []) (Some ''v1'')) ((NewClient [] [] [])\<lparr>usersETag := ''v1''\<rparr>)) = Inr []"
  using fetch_by_tag [of "''v2''" "(NewClient [] [] [])\<lparr>usersETag := ''v1''\<rparr>"]
  by (simp add: usersRequest_def condHeader_def)

text \<open>C32: the tag is remembered before the body is decoded. When a version's body cannot be decoded once (cut
  off, say), the pull fails, and every later pull of that version is answered ``not modified'': it is never
  applied, even though the manager would now send it whole.\<close>

theorem undecodable_version_is_lost:
  assumes "tag \<noteq> []" "configETag c \<noteq> tag" "usersETag c \<noteq> tag"
  shows "(let (r1, c1) = FetchConfig (serve tag None (rq_IfNoneMatch (configRequest c))) c
          in r1 = Inl BadBody \<and>
             FetchConfig (serve tag (Some cfg) (rq_IfNoneMatch (configRequest c1))) c1 = (Inl ErrNotModified, c1)) \<and>
         (let (r1, c1) = FetchUsers (serve tag None (rq_IfNoneMatch (usersRequest c))) c
          in r1 = Inl BadBody \<and>
             FetchUsers (serve tag (Some us) (rq_IfNoneMatch (usersRequest c1))) c1 = (Inl ErrNotModified, c1))"
  using cfgf.sticky_error [OF assms(1,2)] usrf.sticky_error [OF assms(1,3)]
  by (auto simp: configRequest_def usersRequest_def split: prod.split)

theorem undecodable_version_is_lost_witness:
  "let c1 = snd (FetchUsers (serve ''v1'' None None) (NewClient [] [] []))
   in fst (FetchUsers (serve ''v1'' (Some []) (Some ''v1'')) c1) = Inl ErrNotModified"
  using undecodable_version_is_lost [of "''v1''" "NewClient [] [] []" undefined "[]"]
  by (simp add: NewClient_def usersRequest_def condHeader_def serve_def FetchUsers_def)

end
