(* ===== verification/Accounting.thy ===== *)
theory Accounting
  imports Users
begin

text \<open>
  What the counters, the reports and the quota layer show together: runs of counted chunks between two
  snapshots (\<open>quota.go\<close>) and between two reports (\<open>traffic.go\<close>).
\<close>

section \<open>Runs of counted chunks against a snapshot\<close>

definition bytesOf :: "uuid \<Rightarrow> chunk list \<Rightarrow> int" where
  "bytesOf u cs = sum_list (map (\<lambda>(v, node, up, down). if v = u then up + down else 0) cs)"

definition chunk_ok :: "chunk \<Rightarrow> bool" where
  "chunk_ok c = (case c of (u, node, up, down) \<Rightarrow> 0 \<le> up \<and> 0 \<le> down \<and> up < 2 ^ 61 \<and> down < 2 ^ 61)"

lemma bytesOf_simps [simp]:
  "bytesOf u [] = 0" "bytesOf u ((v, node, up, down) # cs) = (if v = u then up + down else 0) + bytesOf u cs"
  by (simp_all add: bytesOf_def)

lemma bytesOf_nonneg: "list_all chunk_ok cs \<Longrightarrow> 0 \<le> bytesOf u cs"
  by (induction cs) (auto simp: chunk_ok_def split: if_splits)

lemma addTraffic_quota_other: "v \<noteq> u \<Longrightarrow> userQuota (addTraffic u node up down w) v = userQuota w v"
  by (simp add: addTraffic_quota accrue_other)

lemma addTraffic_quota_step:
  assumes q: "userQuota w u = Some qs" "quota_sane qs" "quota_inv qs"
    and n: "0 \<le> up" "0 \<le> down" "q_accrual qs + (up + down) < 2 ^ 61"
  shows "\<exists>q. userQuota (addTraffic u node up down w) u = Some q \<and> quota_sane q \<and> quota_inv q \<and>
     q_quota q = q_quota qs \<and> q_base q = q_base qs \<and>
     (0 \<le> q_quota qs \<longrightarrow> q_accrual q = q_accrual qs + (up + down)) \<and>
     (q_quota qs < 0 \<longrightarrow> q_accrual q = q_accrual qs)"
proof -
  have wr: "wrap64 (up + down) = up + down"
    using q(2) n by (intro wrap64_id) (auto simp: is_i64_def quota_sane_def)
  show ?thesis
  proof (cases "0 < up + down \<and> 0 \<le> q_quota qs")
    case False
    with q n show ?thesis
      by (auto simp: addTraffic_quota wr accrueQuotaLocked_def)
  next
    case True
    then have "up + down < 2 ^ 61" using q n by (auto simp: quota_sane_def)
    with True q n show ?thesis
      by (auto simp: addTraffic_quota wr accrue_exact Let_def quota_sane_def quota_inv_def)
  qed
qed

lemma addChunk_quota_run:
  assumes "userQuota w u = Some qs" "quota_sane qs" "quota_inv qs"
    and "list_all chunk_ok cs" "q_accrual qs + bytesOf u cs < 2 ^ 61"
  shows "\<exists>q. userQuota (fold addChunk cs w) u = Some q \<and> quota_sane q \<and> quota_inv q \<and>
     q_quota q = q_quota qs \<and> q_base q = q_base qs \<and>
     (0 \<le> q_quota qs \<longrightarrow> q_accrual q = q_accrual qs + bytesOf u cs)"
  using assms
proof (induction cs arbitrary: w qs)
  case Nil
  then show ?case by simp
next
  case (Cons c cs)
  obtain v node up down where c: "c = (v, node, up, down)" by (cases c)
  have nn: "0 \<le> bytesOf u cs" using Cons.prems by (intro bytesOf_nonneg) simp
  have "chunk_ok c" and ok: "list_all chunk_ok cs" using Cons.prems by simp_all
  then have pos: "0 \<le> up" "0 \<le> down" by (simp_all add: c chunk_ok_def)
  show ?case
  proof (cases "v = u")
    case False
    then have "userQuota (addChunk c w) u = Some qs"
      using Cons.prems by (simp add: c addChunk_def addTraffic_quota_other)
    with Cons.IH [OF this] Cons.prems ok False show ?thesis by (simp add: c)
  next
    case True
    with Cons.prems nn have lim: "q_accrual qs + (up + down) < 2 ^ 61" by (simp add: c)
    obtain q where q: "userQuota (addChunk c w) u = Some q" "quota_sane q" "quota_inv q"
        "q_quota q = q_quota qs" "q_base q = q_base qs"
        "0 \<le> q_quota qs \<longrightarrow> q_accrual q = q_accrual qs + (up + down)"
        "q_quota qs < 0 \<longrightarrow> q_accrual q = q_accrual qs"
      using addTraffic_quota_step [OF Cons.prems(1,2,3) pos lim] True
      by (auto simp: c addChunk_def)
    have "q_accrual q + bytesOf u cs < 2 ^ 61"
      using q(6,7) Cons.prems(5) True pos nn by (cases "0 \<le> q_quota qs") (auto simp: c)
    from Cons.IH [OF q(1,2,3) ok this] q True show ?thesis by (auto simp: c)
  qed
qed

section \<open>Properties of the quota layer\<close>

text \<open>C4: from a snapshot on, over any interleaved run of counted chunks, a user is locally cut exactly when
  the manager-side usage plus what this node counted for her reaches the cap; chunks of other users have no
  effect on her.\<close>

theorem cut_exactly_at_cap:
  assumes "userQuota w u = Some qs" "quota_sane qs" "quota_inv qs"
    and "list_all chunk_ok cs" "q_accrual qs + bytesOf u cs < 2 ^ 61"
  shows "userOverQuota u (fold addChunk cs w) \<longleftrightarrow>
     0 \<le> q_quota qs \<and> q_quota qs \<le> q_base qs + q_accrual qs + bytesOf u cs"
proof -
  from addChunk_quota_run [OF assms] obtain q where "userQuota (fold addChunk cs w) u = Some q"
      "quota_inv q" "q_quota q = q_quota qs" "q_base q = q_base qs"
      "0 \<le> q_quota qs \<longrightarrow> q_accrual q = q_accrual qs + bytesOf u cs"
    by blast
  then show ?thesis
    by (auto simp: userOverQuota_def userOverQuotaLocked_def quota_inv_def)
qed

theorem cut_exactly_at_cap_witness:
  "let w = exNew\<lparr>userQuota := [[1] \<mapsto> \<lparr>q_quota = 100, q_base = 90, q_accrual = 0, q_cut = False\<rparr>]\<rparr>
   in \<not> userOverQuota [1] (fold addChunk [([1], [], 5, 0), ([2], [], 50, 0)] w) \<and>
      userOverQuota [1] (fold addChunk [([1], [], 5, 0), ([1], ''c1'', 0, 10)] w)"
proof -
  let ?w = "exNew\<lparr>userQuota := [[1] \<mapsto> \<lparr>q_quota = 100, q_base = 90, q_accrual = 0, q_cut = False\<rparr>]\<rparr>"
  have q: "userQuota ?w [1] = Some \<lparr>q_quota = 100, q_base = 90, q_accrual = 0, q_cut = False\<rparr>" by simp
  show ?thesis
    using cut_exactly_at_cap [OF q, of "[([1], [], 5, 0), ([2], [], 50, 0)]"]
      cut_exactly_at_cap [OF q, of "[([1], [], 5, 0), ([1], ''c1'', 0, 10)]"]
    by (simp add: quota_sane_def quota_inv_def chunk_ok_def Let_def)
qed

lemma addChunk_cut_closed:
  assumes "userQuota w u = Some q" "q_cut q" "list_all (\<lambda>(v, _). v = u) cs"
  shows "closed (fold addChunk cs w) = closed w \<and> userOverQuota u (fold addChunk cs w)"
  using assms
proof (induction cs arbitrary: w q)
  case Nil
  then show ?case by (simp add: userOverQuota_def userOverQuotaLocked_def)
next
  case (Cons c cs)
  obtain node up down where c: "c = (u, node, up, down)" using Cons.prems by (cases c) auto
  obtain q' where "userQuota (addChunk c w) u = Some q'" "q_cut q'"
    using Cons.prems accrue_keeps_cut [of w u q u "wrap64 (up + down)"]
    by (cases "wrap64 (up + down) > 0") (auto simp: c addChunk_def addTraffic_quota)
  moreover have "closed (addChunk c w) = closed w"
    using Cons.prems by (simp add: c addChunk_def addTraffic_quota accrue_cut_closed)
  ultimately show ?case using Cons.IH [of "addChunk c w" q'] Cons.prems by simp
qed

text \<open>C31: a user who is marked cut by the snapshot itself keeps every live connection: \<open>ApplyUsage\<close> closes
  none, and no amount of further traffic on them does, since the closing transition is only taken by a chunk
  that crosses the cap while the user is not yet cut. (The comment on \<open>quotaState.cut\<close> says
  ``connections closed''.)\<close>

theorem snapshot_cut_closes_nothing:
  assumes "userOverQuota u (ApplyUsage ord usage w)" and "list_all (\<lambda>(v, _). v = u) cs"
  shows "closed (fold addChunk cs (ApplyUsage ord usage w)) = closed w \<and>
    connsOf (fold addChunk cs (ApplyUsage ord usage w)) u = connsOf w u \<and>
    userOverQuota u (fold addChunk cs (ApplyUsage ord usage w))"
proof -
  obtain q where "userQuota (ApplyUsage ord usage w) u = Some q" "q_cut q"
    using assms(1) by (auto simp: userOverQuota_def userOverQuotaLocked_def split: option.splits)
  from addChunk_cut_closed [OF this assms(2)] show ?thesis by simp
qed

theorem snapshot_cut_closes_nothing_witness:
  "let r = \<lparr>u_ID = [], u_Email = ''e'', u_Level = 0, u_ExpireAt = 0, u_SpeedLimitUpBps = 0, u_SpeedLimitDownBps = 0\<rparr>;
       w = exNew\<lparr>users := [[1] \<mapsto> r], userConns := [[1] \<mapsto> {7}]\<rparr>;
       w' = fold addChunk [([1], [], 1000, 0), ([1], [], 0, 5000)]
              (ApplyUsage [[1]] [\<lparr>g_Email = ''e'', g_QuotaBytes = 100, g_UsedBytes = 100\<rparr>] w)
   in closed w' = {} \<and> connsOf w' [1] = {7} \<and> userOverQuota [1] w'"
proof -
  let ?r = "\<lparr>u_ID = [], u_Email = ''e'', u_Level = 0, u_ExpireAt = 0, u_SpeedLimitUpBps = 0, u_SpeedLimitDownBps = 0\<rparr>"
  let ?w = "exNew\<lparr>users := [[1] \<mapsto> ?r], userConns := [[1] \<mapsto> {7}]\<rparr>"
  have "userOverQuota [1] (ApplyUsage [[1]] [\<lparr>g_Email = ''e'', g_QuotaBytes = 100, g_UsedBytes = 100\<rparr>] ?w)"
    by (simp add: userOverQuota_def userOverQuotaLocked_def ApplyUsage_def newQuotas_def emailUUIDs_def
        newQuotaState_def wrap64_def)
  from snapshot_cut_closes_nothing [OF this, of "[([1], [], 1000, 0), ([1], [], 0, 5000)]"] show ?thesis
    by (simp add: Let_def connsOf_def NewServer_def)
qed

section \<open>Reports\<close>

definition nonneg_counters :: "('l, 'd) world \<Rightarrow> bool" where
  "nonneg_counters w \<longleftrightarrow> (\<forall>k. 0 \<le> fst (counter w k) \<and> 0 \<le> snd (counter w k))"

definition keysFor :: "('l, 'd) world \<Rightarrow> string \<Rightarrow> string \<Rightarrow> traffic_key set" where
  "keysFor w e node = {k. \<exists>st. userTraffic w k = Some st \<and> snd k = node \<and> reportEmail (users w) k st = e}"

lemma credited_append: "credited e node (xs @ ys) =
   (fst (credited e node xs) + fst (credited e node ys), snd (credited e node xs) + snd (credited e node ys))"
  by (simp add: credited_def)

lemma credited_reportOf:
  assumes "nonneg_counters w" "e \<noteq> []"
  shows "credited e node (reportOf w k) = (if k \<in> keysFor w e node then counter w k else (0, 0))"
proof (cases "userTraffic w k")
  case None
  then show ?thesis by (simp add: credited_def reportOf_def keysFor_def)
next
  case (Some st)
  have "0 \<le> s_up st" "0 \<le> s_down st"
    using assms(1) Some unfolding nonneg_counters_def counter_def
    by (metis (mono_tags, lifting) fst_conv option.simps(5), metis (mono_tags, lifting) snd_conv option.simps(5))
  with Some assms(2) show ?thesis
    by (auto simp: credited_def reportOf_def keysFor_def counter_def)
qed

lemma sum_list_distinct_sum:
  "distinct xs \<Longrightarrow> sum_list (map f xs) = (\<Sum>x \<in> set xs. f x)"
  by (simp add: sum_list_distinct_conv_sum_set)

lemma credited_reports:
  assumes "nonneg_counters w" "e \<noteq> []" "distinct ord"
  shows "credited e node (concat (map (reportOf w) ord)) =
     (\<Sum>k \<in> set ord \<inter> keysFor w e node. fst (counter w k), \<Sum>k \<in> set ord \<inter> keysFor w e node. snd (counter w k))"
  using assms(3)
proof (induction ord)
  case Nil
  then show ?case by (simp add: credited_def)
next
  case (Cons k ord)
  then show ?case
    by (auto simp: credited_append credited_reportOf [OF assms(1,2)] Int_insert_left)
qed

lemma report_emails: "t \<in> set (fst (GetAndResetTraffic ord w)) \<Longrightarrow> distinct ord \<Longrightarrow> t_Email t \<noteq> []"
  unfolding GetAndResetTraffic_def
  by (auto simp: fold_resetStep reportOf_def split: option.splits if_splits)

lemma upOf_downOf_nonneg: "list_all chunk_ok cs \<Longrightarrow> 0 \<le> upOf k cs \<and> 0 \<le> downOf k cs"
  by (induction cs) (auto simp: chunk_ok_def)

lemma counter_since_report:
  assumes "enumerates ord (userTraffic w)" "list_all chunk_ok cs" "upOf k cs < 2 ^ 63" "downOf k cs < 2 ^ 63"
  shows "counter (fold addChunk cs (snd (GetAndResetTraffic ord w))) k = (upOf k cs, downOf k cs)"
proof -
  have z: "counter (snd (GetAndResetTraffic ord w)) k = (0, 0)"
    by (simp add: GetAndResetTraffic_eq [OF assms(1)] counter_statAfter)
  have "0 \<le> upOf k cs \<and> 0 \<le> downOf k cs" using assms(2) by (rule upOf_downOf_nonneg)
  with z assms(3,4) show ?thesis
    using fold_addChunk_counter [of "snd (GetAndResetTraffic ord w)" k cs] by (simp add: is_i64_def wrap64_id)
qed

lemma credited_counters:
  assumes "enumerates ord (userTraffic w)" "nonneg_counters w" "e \<noteq> []"
  shows "credited e node (fst (GetAndResetTraffic ord w)) =
     (\<Sum>k \<in> keysFor w e node. fst (counter w k), \<Sum>k \<in> keysFor w e node. snd (counter w k))"
proof -
  have "keysFor w e node \<subseteq> set ord"
    using assms(1) by (auto simp: keysFor_def enumerates_def)
  then have "set ord \<inter> keysFor w e node = keysFor w e node" by auto
  then show ?thesis
    using credited_reports [OF assms(2,3), of ord node] assms(1)
    by (simp add: GetAndResetTraffic_eq enumerates_def)
qed

section \<open>Properties of the reports\<close>

text \<open>The counters of a (user, entry point) key after any run of counted chunks are the sums of the bytes
  counted for that key in each direction, as 64-bit values; chunks of other keys do not touch them.\<close>

lemma counters_are_sums:
  assumes "wf_world w"
  shows "counter (fold addChunk cs w) k =
     (wrap64 (fst (counter w k) + upOf k cs), wrap64 (snd (counter w k) + downOf k cs))"
proof (rule fold_addChunk_counter)
  show "is_i64 (fst (counter w k))"
    using assms by (cases k; cases "userTraffic w k") (auto simp: wf_world_def counter_def is_i64_def)
  show "is_i64 (snd (counter w k))"
    using assms by (cases k; cases "userTraffic w k") (auto simp: wf_world_def counter_def is_i64_def)
qed

lemma counters_are_sums_witness:
  "counter (fold addChunk [([1], [], 10, 0), ([1], ''c1'', 7, 3), ([1], [], 5, 0)] exNew) ([1], []) = (15, 0)"
  using counters_are_sums [OF NewServer_wf, of "[([1], [], 10, 0), ([1], ''c1'', 7, 3), ([1], [], 5, 0)]" "([1], [])"]
  by (simp add: counter_def wrap64_def) (simp add: NewServer_def)

text \<open>C10: a report credits to a non-empty email on an entry point exactly what the counters of the keys hold that
  belong to that entry point and whose user has that email, resets every counter to zero and changes nothing
  else; so the next report, after any run of counted chunks, credits exactly the bytes of these chunks: nothing
  counted since the last report is lost, counted twice or credited to another entry point, whatever the orders
  of the map iterations. Entries without an email are never reported.\<close>

theorem report_credits_counters:
  assumes "enumerates ord (userTraffic w)" "nonneg_counters w" "e \<noteq> []"
    and w1: "w1 = fold addChunk cs (snd (GetAndResetTraffic ord w))" "enumerates ord1 (userTraffic w1)"
    and "list_all chunk_ok cs" "\<forall>k. upOf k cs < 2 ^ 63 \<and> downOf k cs < 2 ^ 63"
  shows "credited e node (fst (GetAndResetTraffic ord w)) =
      (\<Sum>k \<in> keysFor w e node. fst (counter w k), \<Sum>k \<in> keysFor w e node. snd (counter w k)) \<and>
    (\<forall>t \<in> set (fst (GetAndResetTraffic ord w)). t_Email t \<noteq> []) \<and>
    (\<forall>k. counter (snd (GetAndResetTraffic ord w)) k = (0, 0)) \<and>
    snd (GetAndResetTraffic ord w) = w\<lparr>userTraffic := userTraffic (snd (GetAndResetTraffic ord w))\<rparr> \<and>
    credited e node (fst (GetAndResetTraffic ord1 w1)) =
      (\<Sum>k \<in> keysFor w1 e node. upOf k cs, \<Sum>k \<in> keysFor w1 e node. downOf k cs)"
proof -
  have c: "counter w1 k = (upOf k cs, downOf k cs)" for k
    unfolding w1(1) using assms(7) [THEN spec, of k] by (intro counter_since_report assms(1,6)) simp_all
  have "nonneg_counters w1"
    using upOf_downOf_nonneg [OF assms(6)] by (simp add: nonneg_counters_def c)
  from credited_counters [OF w1(2) this assms(3), of node] credited_counters [OF assms(1-3), of node] show ?thesis
    using report_emails [of _ ord w] assms(1)
    by (simp add: c GetAndResetTraffic_eq counter_statAfter enumerates_def)
qed

definition exTraffic :: ex_world where
  "exTraffic = exNew\<lparr>userTraffic := [([1], []) \<mapsto> \<lparr>s_email = ''e'', s_up = 15, s_down = 0\<rparr>,
     ([1], ''c1'') \<mapsto> \<lparr>s_email = ''e'', s_up = 7, s_down = 3\<rparr>]\<rparr>"

lemma exTraffic_enum: "enumerates [([1], []), ([1], ''c1'')] (userTraffic exTraffic)"
  by (auto simp: enumerates_def exTraffic_def)

theorem report_credits_counters_witness:
  "credited ''e'' ''c1'' (fst (GetAndResetTraffic [([1], []), ([1], ''c1'')] exTraffic)) = (7, 3) \<and>
   credited ''e'' ''c1'' (fst (GetAndResetTraffic [([1], ''c1''), ([1], [])]
      (fold addChunk [([1], ''c1'', 4, 0), ([1], [], 9, 9), ([1], ''c1'', 1, 2)]
        (snd (GetAndResetTraffic [([1], []), ([1], ''c1'')] exTraffic))))) = (5, 2)"
proof -
  let ?ord = "[([1], []), ([1], ''c1'')] :: traffic_key list"
  let ?cs = "[([1], ''c1'', 4, 0), ([1], [], 9, 9), ([1], ''c1'', 1, 2)] :: chunk list"
  let ?w1 = "fold addChunk ?cs (snd (GetAndResetTraffic ?ord exTraffic))"
  have "nonneg_counters exTraffic" by (auto simp: nonneg_counters_def counter_def exTraffic_def NewServer_def)
  moreover have "keysFor exTraffic ''e'' ''c1'' = {([1], ''c1'')}"
    by (auto simp: keysFor_def exTraffic_def reportEmail_def NewServer_def split: if_splits)
  moreover have t: "userTraffic ?w1 =
      [([1], []) \<mapsto> \<lparr>s_email = ''e'', s_up = 9, s_down = 9\<rparr>, ([1], ''c1'') \<mapsto> \<lparr>s_email = ''e'', s_up = 5, s_down = 2\<rparr>]"
    unfolding GetAndResetTraffic_eq [OF exTraffic_enum]
    by (auto simp: addChunk_def addTraffic_userTraffic ensureStat_def statAfter_def exTraffic_def reportEmail_def
        wrap64_def fun_eq_iff NewServer_def split: option.splits)
  moreover have "enumerates [([1], ''c1''), ([1], [])] (userTraffic ?w1)"
    unfolding t by (auto simp: enumerates_def)
  moreover have "keysFor ?w1 ''e'' ''c1'' = {([1], ''c1'')}"
    unfolding keysFor_def t by (auto simp: reportEmail_def split: if_splits)
  ultimately show ?thesis
    using report_credits_counters [OF exTraffic_enum, of "''e''" ?w1 ?cs "[([1], ''c1''), ([1], [])]" "''c1''"]
    by (simp add: counter_def exTraffic_def chunk_ok_def)
qed

text \<open>A report resets every counter, a second report with no traffic in between is empty, and reporting
  changes neither quota states nor connections.\<close>

lemma report_resets:
  assumes "enumerates ord (userTraffic w)" "enumerates ord' (userTraffic (snd (GetAndResetTraffic ord w)))"
  shows "counter (snd (GetAndResetTraffic ord w)) k = (0, 0) \<and>
     fst (GetAndResetTraffic ord' (snd (GetAndResetTraffic ord w))) = [] \<and>
     userQuota (snd (GetAndResetTraffic ord w)) = userQuota w \<and>
     closed (snd (GetAndResetTraffic ord w)) = closed w"
proof -
  have st: "snd (GetAndResetTraffic ord w) = w\<lparr>userTraffic := \<lambda>k. statAfter (users w) k (userTraffic w k)\<rparr>"
    using assms(1) by (simp add: GetAndResetTraffic_eq)
  then show ?thesis
    using assms(2) by (simp add: GetAndResetTraffic_eq counter_statAfter reportOf_after)
qed

lemma report_resets_witness:
  "\<forall>r. fst (GetAndResetTraffic [([1], [])] (snd (GetAndResetTraffic [([1], [])]
     (exNew\<lparr>users := [[1] \<mapsto> r], userTraffic := [([1], []) \<mapsto> \<lparr>s_email = ''e'', s_up = 15, s_down = 0\<rparr>]\<rparr>)))) = []"
proof
  fix r
  let ?w = "exNew\<lparr>users := [[1] \<mapsto> r], userTraffic := [([1], []) \<mapsto> \<lparr>s_email = ''e'', s_up = 15, s_down = 0\<rparr>]\<rparr>"
  have e: "enumerates [([1], [])] (userTraffic ?w)" by (simp add: enumerates_def)
  moreover have "enumerates [([1], [])] (userTraffic (snd (GetAndResetTraffic [([1], [])] ?w)))"
    unfolding GetAndResetTraffic_eq [OF e] by (auto simp: enumerates_def statAfter_def dom_def split: option.splits)
  ultimately show "fst (GetAndResetTraffic [([1], [])] (snd (GetAndResetTraffic [([1], [])] ?w))) = []"
    using report_resets by blast
qed

text \<open>The email of a counter is fixed when the counter is created: when a reload changes a user's email,
  her traffic keeps being reported under the old one.\<close>

lemma report_email_is_sticky:
  assumes "userTraffic w (u, node) = Some st" "s_email st \<noteq> []" "0 < s_up st"
    and "enumerates ord (userTraffic w)"
  shows "\<lparr>t_Email = s_email st, t_NodeID = node, t_Up = s_up st, t_Down = s_down st\<rparr>
     \<in> set (fst (GetAndResetTraffic ord (UpdateUsers L uo us w)))"
proof -
  have "enumerates ord (userTraffic (UpdateUsers L uo us w))" using assms(4) by simp
  moreover have "(u, node) \<in> set ord" using assms(1,4) by (auto simp: enumerates_def)
  ultimately show ?thesis
    using assms(1-3) by (force simp: GetAndResetTraffic_eq reportOf_def reportEmail_def)
qed

lemma report_email_is_sticky_witness:
  "\<lparr>t_Email = ''e'', t_NodeID = ''c1'', t_Up = 7, t_Down = 3\<rparr>
     \<in> set (fst (GetAndResetTraffic [([1], []), ([1], ''c1'')] (UpdateUsers exLib [] [] exTraffic)))"
  using report_email_is_sticky [of exTraffic "[1]" "''c1''" "\<lparr>s_email = ''e'', s_up = 7, s_down = 3\<rparr>", OF _ _ _ exTraffic_enum]
  by (simp add: exTraffic_def)

end
