(* ===== verification/Sync.thy ===== *)
theory Sync
  imports Api_Client Config_Update Accounting
begin

text \<open>
  \<open>cmd/root.go\<close>: one cycle of the scheduler (\<open>sync\<close>): pull the configuration and the users, collect the traffic
  deltas into \<open>pendingTraffic\<close>, report them, and pull the quota snapshots. The scheduler works against the
  interface \<open>proxy.Inbound\<close> of \<open>proxy/proxy.go\<close>; the part of that contract the traffic accounting rests on is
  the locale \<open>inbound\<close>, interpreted on the VLESS server. What the manager answers in a cycle, and the orders
  in which Go visits maps, are the fields of \<open>sync_io\<close>.
\<close>

section \<open>The state of the scheduler\<close>

record sync_io =
  io_config :: "config response option"
  io_users :: "user list response option"
  io_usersOrd :: "uuid list"
  io_trafficOrd :: "traffic_key list"
  io_pendOrd :: "string list"
  io_report :: "unit response option"
  io_usage :: "user_usage list response option"
  io_usageOrd :: "uuid list"

text \<open>\<open>y_delivered\<close> is not a variable of the program: it collects the entries of the reports the manager
  accepted.\<close>

record 's sync_state =
  y_client :: client
  y_server :: 's
  y_pending :: "string \<rightharpoonup> user_traffic"
  y_missing :: bool
  y_delivered :: "user_traffic list"

section \<open>Pending traffic\<close>

definition NUL :: char where "NUL = char_of (0 :: nat)"

definition pendKey :: "string \<Rightarrow> string \<Rightarrow> string" where
  "pendKey email nid = email @ [NUL] @ nid"

definition mergeStat :: "user_traffic \<Rightarrow> (string \<rightharpoonup> user_traffic) \<Rightarrow> (string \<rightharpoonup> user_traffic)" where
  "mergeStat s p =
     (let key = pendKey (t_Email s) (t_NodeID s)
      in case p key of
           Some t \<Rightarrow> p(key \<mapsto> t\<lparr>t_Up := wrap64 (t_Up t + t_Up s), t_Down := wrap64 (t_Down t + t_Down s)\<rparr>)
         | None \<Rightarrow> p(key \<mapsto> \<lparr>t_Email = t_Email s, t_NodeID = t_NodeID s, t_Up = t_Up s, t_Down = t_Down s\<rparr>))"

definition reportList :: "string list \<Rightarrow> (string \<rightharpoonup> user_traffic) \<Rightarrow> user_traffic list" where
  "reportList ord p = fold (\<lambda>k out. case p k of None \<Rightarrow> out | Some t \<Rightarrow> out @ [t]) ord []"

section \<open>The cycle\<close>

definition syncConfig :: "('l, 'd) lib \<Rightarrow> sync_io \<Rightarrow> ('l, 'd) world sync_state \<Rightarrow> ('l, 'd) world sync_state" where
  "syncConfig L io st =
     (case FetchConfig (io_config io) (y_client st) of
        (Inl _, c) \<Rightarrow> st\<lparr>y_client := c\<rparr>
      | (Inr cfg, c) \<Rightarrow> st\<lparr>y_client := c, y_server := UpdateConfig L cfg (y_server st)\<rparr>)"

definition syncUsers :: "('l, 'd) lib \<Rightarrow> sync_io \<Rightarrow> ('l, 'd) world sync_state \<Rightarrow> ('l, 'd) world sync_state" where
  "syncUsers L io st =
     (case FetchUsers (io_users io) (y_client st) of
        (Inl _, c) \<Rightarrow> st\<lparr>y_client := c\<rparr>
      | (Inr us, c) \<Rightarrow> st\<lparr>y_client := c, y_server := UpdateUsers L (io_usersOrd io) us (y_server st)\<rparr>)"

definition applyUsage :: "sync_io \<Rightarrow> ('l, 'd) world sync_state \<Rightarrow> ('l, 'd) world sync_state" where
  "applyUsage io st =
     (case FetchUsage (io_usage io) of
        Inl ErrNoUsageEndpoint \<Rightarrow> st\<lparr>y_missing := True\<rparr>
      | Inl _ \<Rightarrow> st
      | Inr usage \<Rightarrow> st\<lparr>y_server := ApplyUsage (io_usageOrd io) usage (y_server st)\<rparr>)"

text \<open>Collecting and reporting, generic in the server; the result says whether the usage is pulled.\<close>

definition collectTraffic :: "('s \<Rightarrow> user_traffic list \<times> 's) \<Rightarrow> 's sync_state \<Rightarrow> 's sync_state" where
  "collectTraffic collect st =
     (let (stats, s1) = collect (y_server st)
      in st\<lparr>y_server := s1, y_pending := fold mergeStat stats (y_pending st)\<rparr>)"

definition sendTraffic :: "sync_io \<Rightarrow> 's sync_state \<Rightarrow> bool \<times> 's sync_state" where
  "sendTraffic io st =
     (if y_pending st = Map.empty then (True, st)
      else (case ReportTraffic (io_report io) of
              Some _ \<Rightarrow> (False, st)
            | None \<Rightarrow> (True, st\<lparr>y_pending := Map.empty,
                              y_delivered := y_delivered st @ reportList (io_pendOrd io) (y_pending st)\<rparr>)))"

definition sync :: "('l, 'd) lib \<Rightarrow> sync_io \<Rightarrow> ('l, 'd) world sync_state \<Rightarrow> ('l, 'd) world sync_state" where
  "sync L io st =
     (let st1 = syncUsers L io (syncConfig L io st);
          (pull, st2) = sendTraffic io (collectTraffic (GetAndResetTraffic (io_trafficOrd io)) st1)
      in if pull then applyUsage io st2 else st2)"

section \<open>Pending traffic, abstractly\<close>

text \<open>What is pending for an email on an entry point, and the well-formedness of the map: an entry is stored
  under its own key.\<close>

definition pendingOf :: "(string \<rightharpoonup> user_traffic) \<Rightarrow> string \<Rightarrow> string \<Rightarrow> int \<times> int" where
  "pendingOf p e n = (case p (pendKey e n) of None \<Rightarrow> (0, 0) | Some t \<Rightarrow> (t_Up t, t_Down t))"

definition pend_ok :: "(string \<rightharpoonup> user_traffic) \<Rightarrow> bool" where
  "pend_ok p \<longleftrightarrow> (\<forall>k t. p k = Some t \<longrightarrow> k = pendKey (t_Email t) (t_NodeID t) \<and> NUL \<notin> set (t_Email t) \<and>
     is_i64 (t_Up t) \<and> is_i64 (t_Down t))"

definition stat_ok :: "user_traffic \<Rightarrow> bool" where
  "stat_ok t \<longleftrightarrow> NUL \<notin> set (t_Email t) \<and> is_i64 (t_Up t) \<and> is_i64 (t_Down t)"

lemma pendKey_inj:
  "NUL \<notin> set e \<Longrightarrow> NUL \<notin> set e' \<Longrightarrow> pendKey e n = pendKey e' n' \<longleftrightarrow> e = e' \<and> n = n'"
  by (simp add: pendKey_def append_sep_eq)

lemma pend_ok_empty [simp]: "pend_ok Map.empty"
  by (simp add: pend_ok_def)

lemma mergeStat_ok: "pend_ok p \<Longrightarrow> stat_ok s \<Longrightarrow> pend_ok (mergeStat s p)"
  by (auto simp: pend_ok_def stat_ok_def mergeStat_def Let_def split: option.splits if_splits)

lemma mergeStat_pendingOf:
  assumes "pend_ok p" "stat_ok s" "NUL \<notin> set e"
  shows "pendingOf (mergeStat s p) e n =
     (if t_Email s = e \<and> t_NodeID s = n
      then (wrap64 (fst (pendingOf p e n) + t_Up s), wrap64 (snd (pendingOf p e n) + t_Down s))
      else pendingOf p e n)"
  using assms pendKey_inj [of e "t_Email s" n "t_NodeID s"]
  by (auto simp: pendingOf_def mergeStat_def stat_ok_def Let_def wrap64_id split: option.split)

lemma pendingOf_i64: "pend_ok p \<Longrightarrow> is_i64 (fst (pendingOf p e n)) \<and> is_i64 (snd (pendingOf p e n))"
  by (auto simp: pendingOf_def pend_ok_def is_i64_def split: option.split)

lemma credited_Cons: "credited e n (t # ts) =
   (if t_Email t = e \<and> t_NodeID t = n then (t_Up t + fst (credited e n ts), t_Down t + snd (credited e n ts))
    else credited e n ts)"
  by (simp add: credited_def)

lemma credited_none: "\<forall>t \<in> set ts. t_Email t \<noteq> e \<Longrightarrow> credited e n ts = (0, 0)"
  by (induction ts) (auto simp: credited_Cons credited_def)

lemma merge_pendingOf:
  assumes "pend_ok p" "list_all stat_ok stats" "NUL \<notin> set e"
  shows "pend_ok (fold mergeStat stats p) \<and>
    pendingOf (fold mergeStat stats p) e n =
      (wrap64 (fst (pendingOf p e n) + fst (credited e n stats)),
       wrap64 (snd (pendingOf p e n) + snd (credited e n stats)))"
  using assms
proof (induction stats arbitrary: p)
  case Nil
  then show ?case using pendingOf_i64 [of p e n] by (simp add: credited_def wrap64_id)
next
  case (Cons s stats)
  then have "pend_ok (mergeStat s p)" by (simp add: mergeStat_ok)
  from Cons.IH [OF this] Cons.prems show ?case
    by (auto simp: mergeStat_pendingOf credited_Cons add.assoc)
qed

text \<open>The list that is sent holds exactly the pending entries.\<close>

lemma reportList_eq: "reportList ord p = concat (map (\<lambda>k. case p k of None \<Rightarrow> [] | Some t \<Rightarrow> [t]) ord)"
proof -
  have "fold (\<lambda>k out. case p k of None \<Rightarrow> out | Some t \<Rightarrow> out @ [t]) ord out =
      out @ concat (map (\<lambda>k. case p k of None \<Rightarrow> [] | Some t \<Rightarrow> [t]) ord)" for out
    by (induction ord arbitrary: out) (auto split: option.split)
  then show ?thesis by (simp add: reportList_def)
qed

lemma credited_reportList:
  assumes "distinct ord" "pend_ok p" "NUL \<notin> set e"
  shows "credited e n (reportList ord p) = (if pendKey e n \<in> set ord then pendingOf p e n else (0, 0))"
  using assms(1)
proof (induction ord)
  case Nil
  then show ?case by (simp add: reportList_eq credited_def)
next
  case (Cons k ord)
  show ?case
  proof (cases "p k")
    case None
    with Cons show ?thesis by (auto simp: reportList_eq pendingOf_def)
  next
    case (Some t)
    then have "k = pendKey (t_Email t) (t_NodeID t)" "NUL \<notin> set (t_Email t)"
      using assms(2) by (auto simp: pend_ok_def)
    then have "(t_Email t = e \<and> t_NodeID t = n) \<longleftrightarrow> k = pendKey e n"
      using pendKey_inj assms(3) by metis
    with Cons Some show ?thesis by (auto simp: reportList_eq credited_Cons pendingOf_def)
  qed
qed

lemma credited_pending:
  assumes "enumerates ord p" "pend_ok p" "NUL \<notin> set e"
  shows "credited e n (reportList ord p) = pendingOf p e n"
proof (cases "pendKey e n \<in> set ord")
  case True
  then show ?thesis using assms by (simp add: credited_reportList enumerates_def)
next
  case False
  then have "p (pendKey e n) = None" using enumerates_mem [OF assms(1)] by blast
  with False assms show ?thesis by (simp add: credited_reportList enumerates_def pendingOf_def)
qed

section \<open>The contract of an inbound\<close>

text \<open>What the traffic accounting relies on: collecting hands out, per non-empty email and entry point, exactly
  what the inbound owes (has counted and not handed out), hands out nothing without an email, and leaves nothing
  owed.\<close>

locale inbound =
  fixes collect :: "'o \<Rightarrow> 's \<Rightarrow> user_traffic list \<times> 's"
    and owed :: "'s \<Rightarrow> string \<Rightarrow> string \<Rightarrow> int \<times> int"
    and ok :: "'o \<Rightarrow> 's \<Rightarrow> bool"
  assumes collect_credits: "ok ord s \<Longrightarrow> credited e n (fst (collect ord s)) = (if e = [] then (0, 0) else owed s e n)"
    and collect_clears: "ok ord s \<Longrightarrow> owed (snd (collect ord s)) e n = (0, 0)"
    and collect_stats: "ok ord s \<Longrightarrow> list_all stat_ok (fst (collect ord s))"
begin

lemma collect_pending:
  assumes "ok ord (y_server st)" "pend_ok (y_pending st)" "NUL \<notin> set e"
    and "d = (if e = [] then (0, 0) else owed (y_server st) e n)"
  shows "pend_ok (y_pending (collectTraffic (collect ord) st)) \<and>
    pendingOf (y_pending (collectTraffic (collect ord) st)) e n =
      (wrap64 (fst (pendingOf (y_pending st) e n) + fst d), wrap64 (snd (pendingOf (y_pending st) e n) + snd d)) \<and>
    owed (y_server (collectTraffic (collect ord) st)) e n = (0, 0) \<and>
    y_delivered (collectTraffic (collect ord) st) = y_delivered st"
proof -
  obtain stats s1 where r: "collect ord (y_server st) = (stats, s1)" by fastforce
  with merge_pendingOf [OF assms(2) collect_stats [OF assms(1)] assms(3), of n]
    collect_credits [OF assms(1), of e n] collect_clears [OF assms(1), of e n]
  show ?thesis by (simp add: collectTraffic_def assms(4))
qed

text \<open>One traffic cycle: what the manager has accepted and what is pending grow together by exactly what the
  inbound owed for the email (nothing for the empty one), whether the report succeeds or not, and nothing stays
  owed.\<close>

lemma cycle_conserves:
  assumes "ok ord (y_server st)" "pend_ok (y_pending st)" "NUL \<notin> set e"
    and d: "d = (if e = [] then (0, 0) else owed (y_server st) e n)"
    and st': "st' = snd (sendTraffic io (collectTraffic (collect ord) st))"
    and ordP: "enumerates (io_pendOrd io) (y_pending (collectTraffic (collect ord) st))"
    and fit: "is_i64 (fst (pendingOf (y_pending st) e n) + fst d)"
      "is_i64 (snd (pendingOf (y_pending st) e n) + snd d)"
  shows "fst (credited e n (y_delivered st')) + fst (pendingOf (y_pending st') e n) =
      fst (credited e n (y_delivered st)) + fst (pendingOf (y_pending st) e n) + fst d \<and>
    snd (credited e n (y_delivered st')) + snd (pendingOf (y_pending st') e n) =
      snd (credited e n (y_delivered st)) + snd (pendingOf (y_pending st) e n) + snd d \<and>
    owed (y_server st') e n = (0, 0) \<and> pend_ok (y_pending st')"
proof -
  let ?c = "collectTraffic (collect ord) st"
  from collect_pending [OF assms(1-4)]
  have ok: "pend_ok (y_pending ?c)" and p: "pendingOf (y_pending ?c) e n =
      (fst (pendingOf (y_pending st) e n) + fst d, snd (pendingOf (y_pending st) e n) + snd d)"
    and o: "owed (y_server ?c) e n = (0, 0)" and dl: "y_delivered ?c = y_delivered st"
    using fit by (simp_all add: wrap64_id)
  note r = credited_pending [OF ordP ok assms(3), of n]
  have e: "pendingOf Map.empty e n = (0, 0)" by (simp add: pendingOf_def)
  show ?thesis
  proof (cases "y_pending ?c = Map.empty")
    case True
    with p e have "fst (pendingOf (y_pending st) e n) + fst d = 0" "snd (pendingOf (y_pending st) e n) + snd d = 0"
      by simp_all
    with True show ?thesis by (simp add: st' sendTraffic_def o dl e)
  next
    case False
    then show ?thesis
      by (cases "ReportTraffic (io_report io)") (simp_all add: st' sendTraffic_def ok p o dl r e credited_append)
  qed
qed

end

section \<open>The VLESS server as an inbound\<close>

definition owedBy :: "('l, 'd) world \<Rightarrow> string \<Rightarrow> string \<Rightarrow> int \<times> int" where
  "owedBy w e n = (\<Sum>k \<in> keysFor w e n. fst (counter w k), \<Sum>k \<in> keysFor w e n. snd (counter w k))"

definition collectable :: "traffic_key list \<Rightarrow> ('l, 'd) world \<Rightarrow> bool" where
  "collectable ord w \<longleftrightarrow> enumerates ord (userTraffic w) \<and> nonneg_counters w \<and> wf_world w \<and>
     (\<forall>k st. userTraffic w k = Some st \<longrightarrow> NUL \<notin> set (reportEmail (users w) k st))"

lemma keysFor_subset: "enumerates ord (userTraffic w) \<Longrightarrow> keysFor w e n \<subseteq> set ord"
  by (auto simp: keysFor_def enumerates_def)

lemma GetAndReset_credits:
  assumes "collectable ord w" "e \<noteq> []"
  shows "credited e n (fst (GetAndResetTraffic ord w)) = owedBy w e n"
proof -
  have en: "enumerates ord (userTraffic w)" and nn: "nonneg_counters w"
    using assms(1) by (simp_all add: collectable_def)
  have "set ord \<inter> keysFor w e n = keysFor w e n" using keysFor_subset [OF en] by auto
  then show ?thesis
    using credited_reports [OF nn assms(2) enumerates_distinct [OF en], of n]
    by (simp add: GetAndResetTraffic_eq [OF en] owedBy_def)
qed

lemma GetAndReset_stats: "collectable ord w \<Longrightarrow> list_all stat_ok (fst (GetAndResetTraffic ord w))"
  by (fastforce simp: collectable_def GetAndResetTraffic_eq list_all_iff reportOf_def stat_ok_def wf_world_def
      split: option.splits if_splits)

lemma GetAndReset_law:
  assumes "collectable ord w"
  shows "credited e n (fst (GetAndResetTraffic ord w)) = (if e = [] then (0, 0) else owedBy w e n)"
proof (cases "e = []")
  case True
  have "enumerates ord (userTraffic w)" using assms(1) by (simp add: collectable_def)
  then have "distinct ord" by (rule enumerates_distinct)
  with True show ?thesis using report_emails [of _ ord w] by (simp add: credited_none)
next
  case False
  then show ?thesis using GetAndReset_credits [OF assms False, of n] by simp
qed

interpretation vless: inbound GetAndResetTraffic owedBy collectable
proof unfold_locales
  fix ord :: "traffic_key list" and s :: "('l, 'd) world" and e n
  assume ok: "collectable ord s"
  then have en: "enumerates ord (userTraffic s)" by (simp add: collectable_def)
  show "owedBy (snd (GetAndResetTraffic ord s)) e n = (0, 0)"
    by (simp add: owedBy_def GetAndResetTraffic_eq [OF en] counter_statAfter)
qed (auto simp: GetAndReset_law GetAndReset_stats)


lemma sendTraffic_server: "y_server (snd (sendTraffic io st)) = y_server st"
  by (simp add: sendTraffic_def split: option.split)

lemma applyUsage_frame [simp]:
  "y_pending (applyUsage io st) = y_pending st" "y_delivered (applyUsage io st) = y_delivered st"
  "y_client (applyUsage io st) = y_client st"
  by (auto simp: applyUsage_def split: sum.split fetch_error.split)

lemma syncFetch_frame [simp]:
  "y_pending (syncConfig L io st) = y_pending st" "y_delivered (syncConfig L io st) = y_delivered st"
  "y_pending (syncUsers L io st) = y_pending st" "y_delivered (syncUsers L io st) = y_delivered st"
  by (auto simp: syncConfig_def syncUsers_def split: sum.split prod.split)

text \<open>The server the traffic is collected from, and the state after collecting.\<close>

definition pulled :: "('l, 'd) lib \<Rightarrow> sync_io \<Rightarrow> ('l, 'd) world sync_state \<Rightarrow> ('l, 'd) world sync_state" where
  "pulled L io st = syncUsers L io (syncConfig L io st)"

definition collected :: "('l, 'd) lib \<Rightarrow> sync_io \<Rightarrow> ('l, 'd) world sync_state \<Rightarrow> ('l, 'd) world sync_state" where
  "collected L io st = collectTraffic (GetAndResetTraffic (io_trafficOrd io)) (pulled L io st)"

lemma pulled_frame [simp]: "y_pending (pulled L io st) = y_pending st" "y_delivered (pulled L io st) = y_delivered st"
  by (simp_all add: pulled_def)

lemma sync_eq: "sync L io st =
    (case sendTraffic io (collected L io st) of (pull, st2) \<Rightarrow> if pull then applyUsage io st2 else st2)"
  by (simp add: sync_def collected_def pulled_def Let_def)

lemma sync_ledger:
  "y_pending (sync L io st) = y_pending (snd (sendTraffic io (collected L io st)))"
  "y_delivered (sync L io st) = y_delivered (snd (sendTraffic io (collected L io st)))"
  by (simp_all add: sync_eq split: prod.split)

section \<open>Properties\<close>

lemma applyUsage_owed: "owedBy (y_server (applyUsage io st)) e n = owedBy (y_server st) e n"
  by (auto simp: applyUsage_def ApplyUsage_def owedBy_def keysFor_def counter_def split: sum.split fetch_error.split)

lemma sync_owed: "owedBy (y_server (sync L io st)) e n = owedBy (y_server (snd (sendTraffic io (collected L io st)))) e n"
  by (simp add: sync_eq applyUsage_owed split: prod.split)

text \<open>C9: over a whole cycle and for every email and entry point, what the manager accepted plus what is pending
  grows by exactly what the server had counted for that email and entry point, whether the report succeeds or
  fails, and the server owes nothing afterwards: no byte of a non-empty email is lost or reported twice, and a
  failed report keeps all of it pending. The bytes of counters whose email is still empty when they are collected
  (a user without email, or gone before her email was known) are zeroed and handed to nobody: they are lost.\<close>

theorem sync_conserves_traffic:
  assumes "collectable (io_trafficOrd io) (y_server (pulled L io st))" "pend_ok (y_pending st)"
    and "NUL \<notin> set e" "enumerates (io_pendOrd io) (y_pending (collected L io st))"
    and d: "d = (if e = [] then (0, 0) else owedBy (y_server (pulled L io st)) e n)"
    and "is_i64 (fst (pendingOf (y_pending st) e n) + fst d)" "is_i64 (snd (pendingOf (y_pending st) e n) + snd d)"
  shows "fst (credited e n (y_delivered (sync L io st))) + fst (pendingOf (y_pending (sync L io st)) e n) =
      fst (credited e n (y_delivered st)) + fst (pendingOf (y_pending st) e n) + fst d \<and>
    snd (credited e n (y_delivered (sync L io st))) + snd (pendingOf (y_pending (sync L io st)) e n) =
      snd (credited e n (y_delivered st)) + snd (pendingOf (y_pending st) e n) + snd d \<and>
    owedBy (y_server (sync L io st)) e n = (0, 0) \<and>
    (ReportTraffic (io_report io) \<noteq> None \<longrightarrow> y_delivered (sync L io st) = y_delivered st) \<and>
    pend_ok (y_pending (sync L io st))"
proof -
  let ?c = "collected L io st"
  have c: "?c = collectTraffic (GetAndResetTraffic (io_trafficOrd io)) (pulled L io st)" by (simp add: collected_def)
  have "pend_ok (y_pending (pulled L io st))" using assms(2) by simp
  from vless.collect_pending [OF assms(1) this assms(3) d] have "y_delivered ?c = y_delivered st" by (simp add: c)
  with vless.cycle_conserves [OF assms(1) _ assms(3) d refl, of io] assms(2,4,6,7) show ?thesis
    by (auto simp: sync_ledger sync_owed c [symmetric] sendTraffic_def split: option.splits)
qed

definition exIO :: "unit response option \<Rightarrow> sync_io" where
  "exIO rep = \<lparr>io_config = None, io_users = None, io_usersOrd = [], io_trafficOrd = [([1], []), ([1], ''c1'')],
     io_pendOrd = [pendKey ''e'' [], pendKey ''e'' ''c1''], io_report = rep, io_usage = None, io_usageOrd = []\<rparr>"

definition exSync :: "ex_world sync_state" where
  "exSync = \<lparr>y_client = NewClient [] [] [], y_server = exTraffic, y_pending = Map.empty, y_missing = False, y_delivered = []\<rparr>"

lemma exSync_pulled: "pulled exLib (exIO rep) exSync = exSync"
  by (simp add: pulled_def syncConfig_def syncUsers_def FetchConfig_def FetchUsers_def exIO_def exSync_def)

lemma exSync_report: "fst (GetAndResetTraffic [([1], []), ([1], ''c1'')] exTraffic) =
    [\<lparr>t_Email = ''e'', t_NodeID = [], t_Up = 15, t_Down = 0\<rparr>, \<lparr>t_Email = ''e'', t_NodeID = ''c1'', t_Up = 7, t_Down = 3\<rparr>]"
  unfolding GetAndResetTraffic_eq [OF exTraffic_enum] by (simp add: reportOf_def exTraffic_def reportEmail_def)

lemma exSync_pending: "y_pending (collected exLib (exIO rep) exSync) =
    [pendKey ''e'' [] \<mapsto> \<lparr>t_Email = ''e'', t_NodeID = [], t_Up = 15, t_Down = 0\<rparr>,
     pendKey ''e'' ''c1'' \<mapsto> \<lparr>t_Email = ''e'', t_NodeID = ''c1'', t_Up = 7, t_Down = 3\<rparr>]"
proof -
  have "y_pending (collected exLib (exIO rep) exSync) =
      fold mergeStat (fst (GetAndResetTraffic [([1], []), ([1], ''c1'')] exTraffic)) Map.empty"
    unfolding collected_def exSync_pulled by (simp add: collectTraffic_def exIO_def exSync_def split: prod.split)
  then show ?thesis by (simp add: exSync_report mergeStat_def pendKey_def Let_def)
qed

lemma pendingOf_empty: "pendingOf Map.empty e n = (0, 0)"
  by (simp add: pendingOf_def)

lemma credited_Nil: "credited e n [] = (0, 0)"
  by (simp add: credited_def)

lemma NUL_char: "NUL \<noteq> CHR ''e''" by code_simp

lemma exTraffic_wf: "wf_world exTraffic" "nonneg_counters exTraffic"
  using NewServer_wf by (auto simp: exTraffic_def wf_world_def NewServer_def is_i64_def nonneg_counters_def counter_def)

lemma exTraffic_owed: "owedBy exTraffic ''e'' ''c1'' = (7, 3)"
proof -
  have "keysFor exTraffic ''e'' ''c1'' = {([1], ''c1'')}"
    by (auto simp: keysFor_def exTraffic_def reportEmail_def NewServer_def split: if_splits)
  then show ?thesis by (simp add: owedBy_def counter_def exTraffic_def)
qed

text \<open>A server with a counter of a user without email.\<close>

definition exAnon :: ex_world where
  "exAnon = exNew\<lparr>userTraffic := [([1], []) \<mapsto> \<lparr>s_email = [], s_up = 15, s_down = 2\<rparr>]\<rparr>"

theorem sync_conserves_traffic_witness:
  "fst (pendingOf (y_pending (sync exLib (exIO None) exSync)) ''e'' ''c1'') = 7 \<and>
   owedBy exAnon [] [] = (15, 2) \<and>
   (let st = sync exLib ((exIO None)\<lparr>io_trafficOrd := [([1], [])], io_pendOrd := []\<rparr>) (exSync\<lparr>y_server := exAnon\<rparr>)
    in owedBy (y_server st) [] [] = (0, 0) \<and> fst (credited [] [] (y_delivered st)) + fst (pendingOf (y_pending st) [] []) = 0)"
proof -
  let ?io = "exIO None"
  have "collectable (io_trafficOrd ?io) (y_server (pulled exLib ?io exSync))"
    unfolding exSync_pulled using exTraffic_enum exTraffic_wf NUL_char
    by (auto simp: collectable_def exIO_def exSync_def) (auto simp: exTraffic_def reportEmail_def split: if_splits)
  moreover have "enumerates (io_pendOrd ?io) (y_pending (collected exLib ?io exSync))"
    unfolding exSync_pending by (auto simp: enumerates_def exIO_def pendKey_def)
  moreover have "y_server (pulled exLib ?io exSync) = exTraffic" "y_pending exSync = Map.empty" "y_delivered exSync = []"
    by (simp_all add: exSync_pulled) (simp_all add: exSync_def)
  moreover have "ReportTraffic (io_report ?io) \<noteq> None" by (simp add: exIO_def ReportTraffic_def)
  ultimately have 1: "fst (pendingOf (y_pending (sync exLib (exIO None) exSync)) ''e'' ''c1'') = 7"
    using sync_conserves_traffic [of ?io exLib exSync "''e''" _ "''c1''"] NUL_char exTraffic_owed
    by (auto simp: pendingOf_empty credited_Nil is_i64_def)
  have k: "keysFor exAnon [] [] = {([1], [])}"
    by (auto simp: keysFor_def exAnon_def reportEmail_def NewServer_def emailOf_def split: if_splits)
  then have o: "owedBy exAnon [] [] = (15, 2)" by (simp add: owedBy_def counter_def exAnon_def)
  let ?io = "(exIO None)\<lparr>io_trafficOrd := [([1], [])], io_pendOrd := []\<rparr>" and ?st = "exSync\<lparr>y_server := exAnon\<rparr>"
  have p: "pulled exLib ?io ?st = ?st"
    by (simp add: pulled_def syncConfig_def syncUsers_def FetchConfig_def FetchUsers_def exIO_def exSync_def)
  have en: "enumerates [([1], [])] (userTraffic exAnon)" by (auto simp: enumerates_def exAnon_def)
  have "collectable (io_trafficOrd ?io) (y_server (pulled exLib ?io ?st))"
    unfolding p using en NewServer_wf
    by (auto simp: collectable_def nonneg_counters_def counter_def exAnon_def reportEmail_def emailOf_def NewServer_def
      wf_world_def is_i64_def split: if_splits)
  moreover have "y_pending (collected exLib ?io ?st) = Map.empty"
    unfolding collected_def p
    using GetAndResetTraffic_eq [OF en] by (simp add: collectTraffic_def exSync_def reportOf_def exAnon_def reportEmail_def emailOf_def NewServer_def)
  ultimately have "owedBy (y_server (sync exLib ?io ?st)) [] [] = (0, 0) \<and>
      fst (credited [] [] (y_delivered (sync exLib ?io ?st))) + fst (pendingOf (y_pending (sync exLib ?io ?st)) [] []) = 0"
    using sync_conserves_traffic [of ?io exLib ?st "[]" "(0, 0)" "[]"]
    by (simp add: exSync_def pendingOf_empty credited_Nil is_i64_def enumerates_def)
  with 1 o show ?thesis by (simp add: Let_def)
qed

lemma resetStep_quota [simp]: "userQuota (snd (resetStep k acc)) = userQuota (snd acc)"
  by (cases acc) (auto simp: resetStep_def Let_def split: option.split)

lemma collect_quota: "userQuota (snd (GetAndResetTraffic ord w)) = userQuota w"
  using fold_keeps [of "\<lambda>s. userQuota (snd s)" resetStep ord "([], w)"] by (simp add: GetAndResetTraffic_def)

lemma collected_quota: "userQuota (y_server (collected L io st)) = userQuota (y_server (pulled L io st))"
  using collect_quota [of "io_trafficOrd io" "y_server (pulled L io st)"]
  by (cases "GetAndResetTraffic (io_trafficOrd io) (y_server (pulled L io st))")
    (simp add: collected_def collectTraffic_def)

text \<open>The quota snapshots are replaced only when the manager's numbers include everything this node has
  reported: after an accepted report, or when nothing was pending; and then exactly when the snapshot was
  delivered. A failed report, a failed pull and a manager without the endpoint leave the enforcement as it was.\<close>

lemma usage_follows_report:
  "userQuota (y_server (sync L io st)) =
     (if (y_pending (collected L io st) = Map.empty \<or> ReportTraffic (io_report io) = None) \<and>
         (\<exists>us. FetchUsage (io_usage io) = Inr us)
      then newQuotas (emailUUIDs (io_usageOrd io) (users (y_server (collected L io st)))) (projr (FetchUsage (io_usage io)))
      else userQuota (y_server (pulled L io st)))"
proof -
  have a: "userQuota (y_server (applyUsage io s)) =
      (if (\<exists>us. FetchUsage (io_usage io) = Inr us)
       then newQuotas (emailUUIDs (io_usageOrd io) (users (y_server s))) (projr (FetchUsage (io_usage io)))
       else userQuota (y_server s))" for s :: "('l, 'd) world sync_state"
    by (auto simp: applyUsage_def ApplyUsage_def split: sum.split fetch_error.split)
  show ?thesis
    unfolding sync_eq sendTraffic_def by (simp add: a collected_quota split: option.split)
qed

text \<open>What is counted between collecting the deltas and applying the snapshot is in neither: the snapshot
  starts a user's own count at zero, whatever was counted before it, so those bytes do not count towards her
  cap until the next cycle.\<close>

lemma snapshot_forgets_window:
  "userQuota (ApplyUsage ord usage (fold addChunk cs w)) = userQuota (ApplyUsage ord usage w) \<and>
   (\<forall>u q. userQuota (ApplyUsage ord usage (fold addChunk cs w)) u = Some q \<longrightarrow> q_accrual q = 0)"
proof -
  have "q_accrual q = 0" if "newQuotas em us u = Some q" for em us u q
    using newQuotas_origin [OF that] by (auto simp: newQuotaState_def)
  then show ?thesis by (auto simp: ApplyUsage_def)
qed
end
