(* ===== verification/Startup.thy ===== *)
theory Startup
  imports Log_Level Sync
begin

text \<open>
  \<open>run\<close> of \<open>cmd/root.go\<close> and \<open>LoadLocalConfig\<close> of \<open>config/config.go\<close>: the local configuration, the logging set-up, the
  client and the server, the first synchronisation, and the scheduler. viper is third-party: the source it reads
  from, how the read ends, and the value it finds for a key (the file's, the environment's or the default) are
  arguments; \<open>None\<close> for an integer is a value that does not decode.
\<close>

section \<open>LoadLocalConfig\<close>

datatype config_source = ConfigFile string | SearchFor string string string \<comment> \<open>name, type, path\<close>

datatype read_result = ReadOk | NotFound | ReadError

record viper =
  ReadInConfig :: "config_source \<Rightarrow> read_result"
  GetString :: "config_source \<Rightarrow> string \<Rightarrow> string \<Rightarrow> string" \<comment> \<open>key, default\<close>
  GetInt :: "config_source \<Rightarrow> string \<Rightarrow> int \<Rightarrow> int option"

record local_config =
  AdminAPI :: string
  lc_NodeID :: string
  NodeToken :: string
  SyncInterval :: int
  LogLevel :: string

definition LoadLocalConfig :: "viper \<Rightarrow> string \<Rightarrow> local_config option" where
  "LoadLocalConfig v path =
     (let src = (if path \<noteq> [] then ConfigFile path else SearchFor ''config'' ''yml'' ''.'')
      in if ReadInConfig v src = ReadError then None
         else (case GetInt v src ''sync_interval'' 60 of
                 None \<Rightarrow> None
               | Some interval \<Rightarrow>
                   Some \<lparr>AdminAPI = GetString v src ''admin_api'' ''http://localhost:8081'',
                         lc_NodeID = GetString v src ''node_id'' [],
                         NodeToken = GetString v src ''node_token'' ''default_token'',
                         SyncInterval = interval,
                         LogLevel = GetString v src ''log_level'' ''info''\<rparr>))"

section \<open>run\<close>

definition baseURL :: "string \<Rightarrow> string" where
  "baseURL admin = trimRight (CHR ''/'') admin @ ''/api/v1/server''"

text \<open>The outcomes: the process exits, \<open>time.NewTicker\<close> panics on an interval that is not positive, or the
  scheduler runs with this state, log levels and interval.\<close>

datatype ('l, 'd, 'v) run_outcome =
    Exit1
  | TickerPanic
  | Scheduling "('l, 'd) world sync_state" "'v \<times> severity option" int

definition startState :: "('l, 'd) lib \<Rightarrow> local_config \<Rightarrow> sync_io \<Rightarrow> ('l, 'd) world sync_state" where
  "startState L cfg io =
     sync L io \<lparr>y_client = NewClient (baseURL (AdminAPI cfg)) (lc_NodeID cfg) (NodeToken cfg),
                y_server = SetNodeID (lc_NodeID cfg) NewServer, y_pending = Map.empty, y_missing = False, y_delivered = []\<rparr>"

definition run :: "('l, 'd) lib \<Rightarrow> viper \<Rightarrow> string \<Rightarrow> (string \<Rightarrow> 'v option) \<Rightarrow> 'v \<Rightarrow> sync_io \<Rightarrow> ('l, 'd, 'v) run_outcome" where
  "run L v path logrusParse defaultLevel io =
     (case LoadLocalConfig v path of
        None \<Rightarrow> Exit1
      | Some cfg \<Rightarrow>
          (let logs = setupLogging logrusParse (LogLevel cfg) (defaultLevel, None);
               st = startState L cfg io;
               interval = wrap64 (SyncInterval cfg * 1000000000)
           in if interval \<le> 0 then TickerPanic else Scheduling st logs interval))"

text \<open>The scheduler: one cycle per tick.\<close>

definition schedule :: "('l, 'd) lib \<Rightarrow> sync_io list \<Rightarrow> ('l, 'd) world sync_state \<Rightarrow> ('l, 'd) world sync_state" where
  "schedule L ios st = fold (sync L) ios st"

section \<open>Lemmas\<close>

lemma trimRight_snoc: "trimRight c (xs @ replicate n c) = trimRight c xs"
proof -
  have "dropWhile (\<lambda>x. x = c) (replicate n c @ ys) = dropWhile (\<lambda>x. x = c) ys" for ys by (induction n) simp_all
  then show ?thesis by (simp add: trimRight_def)
qed

lemma trimRight_keep: "xs = [] \<or> last xs \<noteq> c \<Longrightarrow> trimRight c xs = xs"
  by (cases xs rule: rev_cases) (simp_all add: trimRight_def)

text \<open>What a cycle does not touch: the address and the identity of the client.\<close>

lemma FetchConfig_ids: "BaseURL (snd (FetchConfig r c)) = BaseURL c \<and> client.NodeID (snd (FetchConfig r c)) = client.NodeID c \<and>
   Token (snd (FetchConfig r c)) = Token c"
  by (simp add: FetchConfig_def Let_def split: option.split)

lemma FetchUsers_ids: "BaseURL (snd (FetchUsers r c)) = BaseURL c \<and> client.NodeID (snd (FetchUsers r c)) = client.NodeID c \<and>
   Token (snd (FetchUsers r c)) = Token c"
  by (simp add: FetchUsers_def Let_def split: option.split)

lemma syncConfig_client: "y_client (syncConfig L io st) = snd (FetchConfig (io_config io) (y_client st))"
  by (simp add: syncConfig_def split: prod.split sum.split)

lemma syncUsers_client: "y_client (syncUsers L io st) = snd (FetchUsers (io_users io) (y_client st))"
  by (simp add: syncUsers_def split: prod.split sum.split)

lemma sync_client: "y_client (sync L io st) = y_client (syncUsers L io (syncConfig L io st))"
  by (simp add: sync_def sendTraffic_def collectTraffic_def applyUsage_def Let_def split: prod.split option.split sum.split fetch_error.split)

lemma sync_ids: "BaseURL (y_client (sync L io st)) = BaseURL (y_client st) \<and> client.NodeID (y_client (sync L io st)) = client.NodeID (y_client st) \<and>
   Token (y_client (sync L io st)) = Token (y_client st)"
  by (simp add: sync_client syncUsers_client syncConfig_client FetchUsers_ids FetchConfig_ids)

lemma schedule_ids: "BaseURL (y_client (schedule L ios st)) = BaseURL (y_client st) \<and> client.NodeID (y_client (schedule L ios st)) = client.NodeID (y_client st) \<and>
   Token (y_client (schedule L ios st)) = Token (y_client st)"
  unfolding schedule_def by (induction ios arbitrary: st) (simp_all add: sync_ids)

section \<open>Properties\<close>

text \<open>Start-up. With a configuration that loads and an interval between one second and 292 years the scheduler
  runs, and in every cycle the requests go to the configured manager, with any number of trailing slashes removed,
  under the configured node and token. An unreadable configuration ends the process; an interval of zero or less
  panics.\<close>

lemma startup_schedules:
  assumes "LoadLocalConfig v path = Some cfg" "AdminAPI cfg = host @ replicate n (CHR ''/'')" "host = [] \<or> last host \<noteq> CHR ''/''"
  shows "(0 < SyncInterval cfg \<and> SyncInterval cfg < 9223372036 \<longrightarrow>
      (\<exists>st logs. run L v path lp lv io = Scheduling st logs (SyncInterval cfg * 1000000000) \<and>
         (\<forall>ios. configRequest (y_client (schedule L ios st)) =
            \<lparr>rq_url = host @ ''/api/v1/server/config'', rq_node_id = lc_NodeID cfg, rq_token = NodeToken cfg,
              rq_IfNoneMatch = condHeader (configETag (y_client (schedule L ios st)))\<rparr>))) \<and>
    (- 9223372036 \<le> SyncInterval cfg \<and> SyncInterval cfg \<le> 0 \<longrightarrow> run L v path lp lv io = TickerPanic)"
proof (intro conjI impI)
  have url: "baseURL (AdminAPI cfg) = host @ ''/api/v1/server''"
    unfolding assms(2) baseURL_def trimRight_snoc trimRight_keep [OF assms(3)] by simp
  assume i: "0 < SyncInterval cfg \<and> SyncInterval cfg < 9223372036"
  then have w: "wrap64 (SyncInterval cfg * 1000000000) = SyncInterval cfg * 1000000000" by (intro wrap64_id) (simp add: is_i64_def)
  let ?st = "startState L cfg io"
  have "run L v path lp lv io = Scheduling ?st (setupLogging lp (LogLevel cfg) (lv, None)) (SyncInterval cfg * 1000000000)"
    using i by (simp add: run_def assms(1) w Let_def)
  moreover have "configRequest (y_client (schedule L ios ?st)) =
      \<lparr>rq_url = host @ ''/api/v1/server/config'', rq_node_id = lc_NodeID cfg, rq_token = NodeToken cfg,
        rq_IfNoneMatch = condHeader (configETag (y_client (schedule L ios ?st)))\<rparr>" for ios
    unfolding configRequest_def schedule_ids [THEN conjunct1] schedule_ids [THEN conjunct2, THEN conjunct1] schedule_ids [THEN conjunct2, THEN conjunct2]
    by (simp add: startState_def sync_ids NewClient_def url)
  ultimately show "\<exists>st logs. run L v path lp lv io = Scheduling st logs (SyncInterval cfg * 1000000000) \<and>
         (\<forall>ios. configRequest (y_client (schedule L ios st)) =
            \<lparr>rq_url = host @ ''/api/v1/server/config'', rq_node_id = lc_NodeID cfg, rq_token = NodeToken cfg,
              rq_IfNoneMatch = condHeader (configETag (y_client (schedule L ios st)))\<rparr>)"
    by blast
next
  assume i: "- 9223372036 \<le> SyncInterval cfg \<and> SyncInterval cfg \<le> 0"
  then have "wrap64 (SyncInterval cfg * 1000000000) = SyncInterval cfg * 1000000000" by (intro wrap64_id) (simp add: is_i64_def)
  with i show "run L v path lp lv io = TickerPanic" by (simp add: run_def assms(1) Let_def)
qed

text \<open>An empty directory and no environment: every key has its default, except an interval of zero.\<close>

definition exViper :: "int \<Rightarrow> viper" where
  "exViper i = \<lparr>ReadInConfig = (\<lambda>_. NotFound), GetString = (\<lambda>_ _ d. d), GetInt = (\<lambda>_ _ _. Some i)\<rparr>"

lemma startup_schedules_witness:
  "run exLib (exViper 0) [] (\<lambda>_. None) () (exIO None) = TickerPanic"
proof -
  have l: "LoadLocalConfig (exViper 0) [] = Some \<lparr>AdminAPI = ''http://localhost:8081'', lc_NodeID = [], NodeToken = ''default_token'',
      SyncInterval = 0, LogLevel = ''info''\<rparr>"
    by (simp add: LoadLocalConfig_def exViper_def)
  show ?thesis using startup_schedules [OF l, of "''http://localhost:8081''" 0] by simp
qed

end
