(* ===== verification/Tcp_Relay.thy ===== *)
theory Tcp_Relay
  imports Handshake "HOL-Library.Sublist"
begin

text \<open>
  \<open>handleTCP\<close> of \<open>proxy/vless/handler.go\<close>: the plain TCP relay. After dialling and writing the bytes that came
  with the header, two goroutines copy in the two directions (\<open>io.CopyBuffer\<close> with 32 KiB), half-close their
  target when they end and report on a channel; the handler waits for the first report only, and its deferred
  calls then close both connections. A step is one round of a copy loop, the end of the handler, or another
  goroutine closing the client's connection (a quota cut, a removed user). What the peers send is the script
  of the two directions; a round's \<open>Write\<close> is given by the number of bytes it takes and its error. That a round is one
  step loses no outcome: \<open>upWrite_moves\<close> and \<open>downRead_moves\<close> move what happens between its two halves out of it.
\<close>

section \<open>The state\<close>

definition copyBuf :: nat where "copyBuf = 32 * 1024"

record ('l, 'd) tcp_relay =
  tr_world :: "('l, 'd) world"
  tr_up :: netin
  tr_down :: netin
  tr_toDest :: "byte list"
  tr_toClient :: "byte list"
  tr_upDone :: bool
  tr_downDone :: bool
  tr_destFin :: bool
  tr_clientFin :: bool
  tr_returned :: bool

text \<open>The start: \<open>None\<close> when dialling or the write of the initial data fails, and the handler returns.\<close>

definition tcpStart :: "bool \<Rightarrow> bool \<Rightarrow> netin \<Rightarrow> netin \<Rightarrow> byte list \<Rightarrow> ('l, 'd) world \<Rightarrow> ('l, 'd) tcp_relay option" where
  "tcpStart dialOk writeOk up down initial w =
     (if \<not> dialOk \<or> (initial \<noteq> [] \<and> \<not> writeOk) then None
      else Some \<lparr>tr_world = w, tr_up = up, tr_down = down, tr_toDest = initial, tr_toClient = [],
                 tr_upDone = False, tr_downDone = False, tr_destFin = False, tr_clientFin = False,
                 tr_returned = False\<rparr>)"

section \<open>The steps\<close>

definition finishUp :: "('l, 'd) tcp_relay \<Rightarrow> ('l, 'd) tcp_relay" where
  "finishUp s = s\<lparr>tr_upDone := True, tr_destFin := True\<rparr>"

definition finishDown :: "('l, 'd) tcp_relay \<Rightarrow> ('l, 'd) tcp_relay" where
  "finishDown s = s\<lparr>tr_downDone := True, tr_clientFin := True\<rparr>"

text \<open>What a \<open>Read\<close> of at most \<open>copyBuf\<close> bytes gets, and what is left of the script; the error comes with the
  last bytes of its entry.\<close>

fun takeChunk :: "netin \<Rightarrow> (byte list \<times> bool) \<times> netin" where
  "takeChunk [] = (([], True), [])"
| "takeChunk ((d, e) # evs) =
     (if length d \<le> copyBuf then ((d, e), evs)
      else ((take copyBuf d, False), (drop copyBuf d, e) # evs))"

definition upRound :: "('l, 'd) lib \<Rightarrow> uuid \<Rightarrow> string \<Rightarrow> conn \<Rightarrow> nat \<Rightarrow> bool \<Rightarrow> ('l, 'd) tcp_relay \<Rightarrow> ('l, 'd) tcp_relay option" where
  "upRound L u node c nw werr s =
     (if tr_upDone s then None
      else if \<not> isOpen c (tr_world s) then Some (finishUp s)
      else
        (let ((chunk, e), rest) = takeChunk (tr_up s);
             s1 = s\<lparr>tr_up := rest, tr_world := countingRead L u node (int (length chunk)) (tr_world s)\<rparr>
         in if chunk = [] then Some (if e then finishUp s1 else s1)
            else if tr_returned s then Some (finishUp s1)
            else (let s2 = s1\<lparr>tr_toDest := tr_toDest s1 @ take nw chunk\<rparr>
                  in Some (if werr \<or> nw < length chunk \<or> e then finishUp s2 else s2))))"

definition downRound :: "('l, 'd) lib \<Rightarrow> uuid \<Rightarrow> string \<Rightarrow> conn \<Rightarrow> nat \<Rightarrow> bool \<Rightarrow> ('l, 'd) tcp_relay \<Rightarrow> ('l, 'd) tcp_relay option" where
  "downRound L u node c nw werr s =
     (if tr_downDone s then None
      else if tr_returned s then Some (finishDown s)
      else
        (let ((chunk, e), rest) = takeChunk (tr_down s); s1 = s\<lparr>tr_down := rest\<rparr>
         in if chunk = [] then Some (if e then finishDown s1 else s1)
            else if \<not> isOpen c (tr_world s1) then Some (finishDown s1)
            else (let s2 = s1\<lparr>tr_toClient := tr_toClient s1 @ take nw chunk,
                              tr_world := countingWrite L u node (int (min nw (length chunk))) (tr_world s1)\<rparr>
                  in Some (if werr \<or> nw < length chunk \<or> e then finishDown s2 else s2))))"

text \<open>The handler: \<open><-errChan\<close>, then the deferred calls.\<close>

definition mainReturn :: "uuid \<Rightarrow> conn \<Rightarrow> ('l, 'd) tcp_relay \<Rightarrow> ('l, 'd) tcp_relay option" where
  "mainReturn u c s =
     (if tr_returned s \<or> \<not> (tr_upDone s \<or> tr_downDone s) then None
      else Some (s\<lparr>tr_returned := True, tr_world := handlerExit (Some u) c (tr_world s)\<rparr>))"

datatype tcp_event = Up nat bool | Down nat bool | Return | CloseClient

fun tcpStep :: "('l, 'd) lib \<Rightarrow> uuid \<Rightarrow> string \<Rightarrow> conn \<Rightarrow> tcp_event \<Rightarrow> ('l, 'd) tcp_relay \<Rightarrow> ('l, 'd) tcp_relay option" where
  "tcpStep L u node c (Up nw werr) s = upRound L u node c nw werr s"
| "tcpStep L u node c (Down nw werr) s = downRound L u node c nw werr s"
| "tcpStep L u node c Return s = mainReturn u c s"
| "tcpStep L u node c CloseClient s = Some (s\<lparr>tr_world := (tr_world s)\<lparr>closed := insert c (closed (tr_world s))\<rparr>\<rparr>)"

fun_cases tcpStep_UpE: "tcpStep L u node c (Up nw werr) s = Some s'"
fun_cases tcpStep_DownE: "tcpStep L u node c (Down nw werr) s = Some s'"
fun_cases tcpStep_ReturnE: "tcpStep L u node c Return s = Some s'"
fun_cases tcpStep_CloseE: "tcpStep L u node c CloseClient s = Some s'"

abbreviation tcp_run :: "('l, 'd) lib \<Rightarrow> uuid \<Rightarrow> string \<Rightarrow> conn \<Rightarrow> ('l, 'd) tcp_relay \<Rightarrow> tcp_event list \<Rightarrow> ('l, 'd) tcp_relay \<Rightarrow> bool" where
  "tcp_run L u node c \<equiv> runs (tcpStep L u node c)"

section \<open>Lemmas\<close>

lemma takeChunk_bytes: "takeChunk evs = ((chunk, e), rest) \<Longrightarrow> chunk @ inBytes rest = inBytes evs"
  by (cases evs rule: takeChunk.cases) (auto simp: inBytes_def split: if_splits)

lemma takeChunk_end: "takeChunk evs = (([], True), rest) \<Longrightarrow> (\<exists>d. evs = ([], True) # rest) \<or> evs = [] \<and> rest = []"
  by (cases evs rule: takeChunk.cases) (auto simp: copyBuf_def split: if_splits)

text \<open>The size of a script: every read makes it smaller, except at the end of the input.\<close>

definition scriptSize :: "netin \<Rightarrow> nat" where
  "scriptSize evs = sum_list (map (\<lambda>(d, e). Suc (length d)) evs)"

lemma takeChunk_size: "takeChunk evs = ((chunk, e), rest) \<Longrightarrow> evs \<noteq> [] \<Longrightarrow> scriptSize rest < scriptSize evs"
  by (cases evs rule: takeChunk.cases) (auto simp: scriptSize_def copyBuf_def split: if_splits)

lemma takeChunk_nil: "takeChunk [] = ((chunk, e), rest) \<Longrightarrow> chunk = [] \<and> e \<and> rest = []"
  by simp

lemmas tcp_defs = upRound_def downRound_def mainReturn_def finishUp_def finishDown_def

text \<open>Delivery: what was written to the destination is the beginning of what the client sent, and what was
  written to the client is the beginning of what the destination sent.\<close>

definition delivered_inv :: "byte list \<Rightarrow> byte list \<Rightarrow> ('l, 'd) tcp_relay \<Rightarrow> bool" where
  "delivered_inv sent answer s \<longleftrightarrow>
     (\<exists>ds. sent = tr_toDest s @ ds \<and> (\<not> tr_upDone s \<longrightarrow> ds = inBytes (tr_up s))) \<and>
     (\<exists>ds. answer = tr_toClient s @ ds \<and> (\<not> tr_downDone s \<longrightarrow> ds = inBytes (tr_down s)))"

lemma upRound_delivered:
  assumes "upRound L u node c nw werr s = Some s'" "delivered_inv sent answer s"
  shows "delivered_inv sent answer s'"
proof -
  obtain chunk e rest where t: "takeChunk (tr_up s) = ((chunk, e), rest)" by (metis prod.exhaust)
  note b = takeChunk_bytes [OF t]
  from assms(2) have nd: "\<not> tr_upDone s" using assms(1) by (auto simp: upRound_def split: if_splits)
  with assms(2) have sent: "sent = tr_toDest s @ chunk @ inBytes rest" by (auto simp: delivered_inv_def b)
  have split: "chunk @ inBytes rest = take nw chunk @ (drop nw chunk @ inBytes rest)" by (metis append.assoc append_take_drop_id)
  show ?thesis
    using assms(1) nd assms(2) sent
    by (auto simp: tcp_defs t delivered_inv_def Let_def split: if_splits; metis split)
qed

lemma downRound_delivered:
  assumes "downRound L u node c nw werr s = Some s'" "delivered_inv sent answer s"
  shows "delivered_inv sent answer s'"
proof -
  obtain chunk e rest where t: "takeChunk (tr_down s) = ((chunk, e), rest)" by (metis prod.exhaust)
  note b = takeChunk_bytes [OF t]
  from assms(2) have nd: "\<not> tr_downDone s" using assms(1) by (auto simp: downRound_def split: if_splits)
  with assms(2) have answer: "answer = tr_toClient s @ chunk @ inBytes rest" by (auto simp: delivered_inv_def b)
  have split: "chunk @ inBytes rest = take nw chunk @ (drop nw chunk @ inBytes rest)" by (metis append.assoc append_take_drop_id)
  show ?thesis
    using assms(1) nd assms(2) answer
    by (auto simp: tcp_defs t delivered_inv_def Let_def split: if_splits; metis split)
qed


lemma tcpStep_delivered:
  assumes "tcpStep L u node c e s = Some s'" "delivered_inv sent answer s"
  shows "delivered_inv sent answer s'"
proof (cases e)
  case (Up nw werr)
  then show ?thesis using assms(1) by (simp add: upRound_delivered [OF _ assms(2)])
next
  case (Down nw werr)
  then show ?thesis using assms(1) by (simp add: downRound_delivered [OF _ assms(2)])
next
  case Return
  then show ?thesis using assms by (auto simp: mainReturn_def delivered_inv_def split: if_splits)
next
  case CloseClient
  then show ?thesis using assms by (auto simp: delivered_inv_def)
qed

interpretation tcp_delivery: machine "tcpStep L u node c" "delivered_inv sent answer" "\<lambda>_. True" for L u node c sent answer
  by unfold_locales (blast intro: tcpStep_delivered)

lemma tcpStart_delivered:
  "tcpStart d o' up down initial w = Some s \<Longrightarrow> delivered_inv (initial @ inBytes up) (inBytes down) s"
  by (auto simp: tcpStart_def delivered_inv_def split: if_splits)

text \<open>Completeness: with peers that do not fail, full writes and the client's connection open, a direction that
  ended has delivered everything.\<close>

definition clean :: "netin \<Rightarrow> bool" where
  "clean evs \<longleftrightarrow> (\<forall>(d, e) \<in> set evs. \<not> e)"

definition full_event :: "tcp_event \<Rightarrow> bool" where
  "full_event ev \<longleftrightarrow> (case ev of Up nw werr \<Rightarrow> copyBuf \<le> nw \<and> \<not> werr | Down nw werr \<Rightarrow> copyBuf \<le> nw \<and> \<not> werr
     | Return \<Rightarrow> False | CloseClient \<Rightarrow> False)"

lemma takeChunk_clean:
  assumes "takeChunk evs = ((chunk, e), rest)" "clean evs"
  shows "clean rest \<and> length chunk \<le> copyBuf \<and> (e \<longrightarrow> evs = [])"
  using assms by (cases evs rule: takeChunk.cases) (auto simp: clean_def split: if_splits)

lemma closed_grows:
  "closed w \<subseteq> closed (countingRead L u node n w)" "closed w \<subseteq> closed (countingWrite L u node n w)"
  using accrue_closed by (auto simp: countingRead_def countingWrite_def addTraffic_quota)

definition complete_inv :: "byte list \<Rightarrow> byte list \<Rightarrow> ('l, 'd) tcp_relay \<Rightarrow> bool" where
  "complete_inv sent answer s \<longleftrightarrow> clean (tr_up s) \<and> clean (tr_down s) \<and> \<not> tr_returned s \<and>
     sent = tr_toDest s @ inBytes (tr_up s) \<and> answer = tr_toClient s @ inBytes (tr_down s) \<and>
     (tr_upDone s \<longrightarrow> tr_up s = []) \<and> (tr_downDone s \<longrightarrow> tr_down s = [])"

lemma complete_step_open:
  assumes "tcpStep L u node c ev s = Some s'" "full_event ev" "isOpen c (tr_world s')"
  shows "isOpen c (tr_world s)"
proof (cases ev)
  case (Up nw werr)
  obtain chunk e rest where t: "takeChunk (tr_up s) = ((chunk, e), rest)" by (metis prod.exhaust)
  from Up assms(1) have u: "upRound L u node c nw werr s = Some s'" by simp
  have "closed (tr_world s) \<subseteq> closed (tr_world s')"
    using u closed_grows(1) [of "tr_world s" L u node "int (length chunk)"]
    by (auto simp: tcp_defs t Let_def split: if_splits)
  with assms(3) show ?thesis by (auto simp: isOpen_def)
next
  case (Down nw werr)
  obtain chunk e rest where t: "takeChunk (tr_down s) = ((chunk, e), rest)" by (metis prod.exhaust)
  from Down assms(1) have u: "downRound L u node c nw werr s = Some s'" by simp
  have "closed (tr_world s) \<subseteq> closed (tr_world s')"
    using u closed_grows(2) [of "tr_world s" L u node "int (min nw (length chunk))"]
    by (auto simp: tcp_defs t Let_def split: if_splits)
  with assms(3) show ?thesis by (auto simp: isOpen_def)
qed (use assms in \<open>auto simp: full_event_def\<close>)

lemma upRound_complete:
  assumes "upRound L u node c nw werr s = Some s'" "full_event (Up nw werr)" "isOpen c (tr_world s)" "complete_inv sent answer s"
  shows "complete_inv sent answer s'"
proof -
  obtain chunk e rest where t: "takeChunk (tr_up s) = ((chunk, e), rest)" by (metis prod.exhaust)
  have inv: "clean (tr_up s)" "clean (tr_down s)" "\<not> tr_returned s" "sent = tr_toDest s @ inBytes (tr_up s)"
    "answer = tr_toClient s @ inBytes (tr_down s)" "tr_downDone s \<longrightarrow> tr_down s = []"
    using assms(4) by (simp_all add: complete_inv_def)
  have nw: "copyBuf \<le> nw" "\<not> werr" using assms(2) by (simp_all add: full_event_def)
  have cl: "clean rest" "length chunk \<le> nw" "e \<longrightarrow> tr_up s = []" "tr_up s = [] \<longrightarrow> chunk = [] \<and> rest = []"
    using takeChunk_clean [OF t inv(1)] nw t by auto
  have sent: "sent = tr_toDest s @ chunk @ inBytes rest" using inv(4) takeChunk_bytes [OF t] by simp
  have nd: "\<not> tr_upDone s" using assms(1) by (auto simp: upRound_def split: if_splits)
  consider "chunk = []" "e" | "chunk = []" "\<not> e" | "chunk \<noteq> []" "\<not> e" using cl by blast
  then show ?thesis
  proof cases
    case 1
    then show ?thesis using assms(1,3) nd inv sent cl by (auto simp: upRound_def t finishUp_def complete_inv_def) 
  next
    case 2
    then show ?thesis using assms(1,3) nd inv sent cl by (auto simp: upRound_def t complete_inv_def)
  next
    case 3
    then show ?thesis using assms(1,3) nd inv sent cl nw by (auto simp: upRound_def t complete_inv_def)
  qed
qed

lemma downRound_complete:
  assumes "downRound L u node c nw werr s = Some s'" "full_event (Down nw werr)" "isOpen c (tr_world s)" "complete_inv sent answer s"
  shows "complete_inv sent answer s'"
proof -
  obtain chunk e rest where t: "takeChunk (tr_down s) = ((chunk, e), rest)" by (metis prod.exhaust)
  have inv: "clean (tr_up s)" "clean (tr_down s)" "\<not> tr_returned s" "sent = tr_toDest s @ inBytes (tr_up s)"
    "answer = tr_toClient s @ inBytes (tr_down s)" "tr_upDone s \<longrightarrow> tr_up s = []"
    using assms(4) by (simp_all add: complete_inv_def)
  have nw: "copyBuf \<le> nw" "\<not> werr" using assms(2) by (simp_all add: full_event_def)
  have cl: "clean rest" "length chunk \<le> nw" "e \<longrightarrow> tr_down s = []" "tr_down s = [] \<longrightarrow> chunk = [] \<and> rest = []"
    using takeChunk_clean [OF t inv(2)] nw t by auto
  have answer: "answer = tr_toClient s @ chunk @ inBytes rest" using inv(5) takeChunk_bytes [OF t] by simp
  have nd: "\<not> tr_downDone s" using assms(1) by (auto simp: downRound_def split: if_splits)
  consider "chunk = []" "e" | "chunk = []" "\<not> e" | "chunk \<noteq> []" "\<not> e" using cl by blast
  then show ?thesis
  proof cases
    case 1
    then show ?thesis using assms(1,3) nd inv answer cl by (auto simp: downRound_def t finishDown_def complete_inv_def)
  next
    case 2
    then show ?thesis using assms(1,3) nd inv answer cl by (auto simp: downRound_def t complete_inv_def)
  next
    case 3
    then show ?thesis using assms(1,3) nd inv answer cl nw by (auto simp: downRound_def t complete_inv_def)
  qed
qed

lemma complete_step:
  assumes "tcpStep L u node c ev s = Some s'" "full_event ev" "isOpen c (tr_world s')" "complete_inv sent answer s"
  shows "complete_inv sent answer s'"
  using assms complete_step_open [OF assms(1-3)]
  by (cases ev) (auto simp: upRound_complete downRound_complete full_event_def)

lemma complete_run:
  "tcp_run L u node c s es s' \<Longrightarrow> list_all full_event es \<Longrightarrow> isOpen c (tr_world s') \<Longrightarrow> complete_inv sent answer s \<Longrightarrow>
   complete_inv sent answer s'"
proof (induction rule: runs.induct)
  case (snoc s es s' e s'')
  from snoc.prems(1) have full: "list_all full_event es" "full_event e" by simp_all
  have "isOpen c (tr_world s') \<and> (complete_inv sent answer s' \<longrightarrow> complete_inv sent answer s'')"
    using complete_step [OF snoc.hyps(2) full(2) snoc.prems(2)] complete_step_open [OF snoc.hyps(2) full(2) snoc.prems(2)] by blast
  with snoc.IH [OF full(1)] snoc.prems(3) show ?case by blast
qed simp

text \<open>Ending: a measure that every step except a close from outside decreases.\<close>

definition tcpMeasure :: "('l, 'd) tcp_relay \<Rightarrow> nat" where
  "tcpMeasure s = (if tr_upDone s then 0 else Suc (scriptSize (tr_up s))) +
     (if tr_downDone s then 0 else Suc (scriptSize (tr_down s))) + (if tr_returned s then 0 else 1)"

lemma upRound_measure: "upRound L u node c nw werr s = Some s' \<Longrightarrow> tcpMeasure s' < tcpMeasure s"
proof -
  assume a: "upRound L u node c nw werr s = Some s'"
  obtain chunk e rest where t: "takeChunk (tr_up s) = ((chunk, e), rest)" by (metis prod.exhaust)
  have sz: "(chunk = [] \<and> e) \<or> scriptSize rest < scriptSize (tr_up s)"
    using t takeChunk_size [OF t] by (cases "tr_up s = []") auto
  from a have "\<not> tr_upDone s" by (simp add: upRound_def split: if_splits)
  with a sz show ?thesis
    by (auto simp: tcp_defs t tcpMeasure_def Let_def simp del: takeChunk.simps split: if_splits)
qed

lemma downRound_measure: "downRound L u node c nw werr s = Some s' \<Longrightarrow> tcpMeasure s' < tcpMeasure s"
proof -
  assume a: "downRound L u node c nw werr s = Some s'"
  obtain chunk e rest where t: "takeChunk (tr_down s) = ((chunk, e), rest)" by (metis prod.exhaust)
  have sz: "(chunk = [] \<and> e) \<or> scriptSize rest < scriptSize (tr_down s)"
    using t takeChunk_size [OF t] by (cases "tr_down s = []") auto
  from a have "\<not> tr_downDone s" by (simp add: downRound_def split: if_splits)
  with a sz show ?thesis
    by (auto simp: tcp_defs t tcpMeasure_def Let_def simp del: takeChunk.simps split: if_splits)
qed

lemma tcpStep_measure:
  "tcpStep L u node c e s = Some s' \<Longrightarrow> (if e = CloseClient then tcpMeasure s' = tcpMeasure s else tcpMeasure s' < tcpMeasure s)"
proof (cases e)
  case (Up nw werr)
  assume "tcpStep L u node c e s = Some s'"
  with Up show ?thesis by (simp add: upRound_measure)
next
  case (Down nw werr)
  assume "tcpStep L u node c e s = Some s'"
  with Down show ?thesis by (simp add: downRound_measure)
qed (auto simp: mainReturn_def tcpMeasure_def split: if_splits)

lemma tcp_run_measure:
  "tcp_run L u node c s es s' \<Longrightarrow> length (filter (\<lambda>e. e \<noteq> CloseClient) es) + tcpMeasure s' \<le> tcpMeasure s"
proof (induction rule: runs.induct)
  case (snoc s es s' e s'')
  then show ?case using tcpStep_measure [OF snoc(2)] by (auto split: if_splits)
qed simp

lemma tcp_progress: "(\<exists>e s'. e \<noteq> CloseClient \<and> tcpStep L u node c e s = Some s') \<or> (tr_upDone s \<and> tr_downDone s \<and> tr_returned s)"
proof (cases "tr_upDone s")
  case False
  then have "\<exists>s'. tcpStep L u node c (Up 0 True) s = Some s'"
    by (auto simp: upRound_def Let_def split: prod.split)
  then show ?thesis by blast
next
  case up: True
  show ?thesis
  proof (cases "tr_downDone s")
    case False
    then have "\<exists>s'. tcpStep L u node c (Down 0 True) s = Some s'"
      by (auto simp: downRound_def Let_def split: prod.split)
    then show ?thesis by blast
  next
    case True
    with up show ?thesis
      by (cases "tr_returned s") (auto simp: mainReturn_def intro: exI [of _ Return])
  qed
qed

section \<open>The transfers of the abstract relay\<close>

text \<open>\<open>handleConnection\<close> describes a running relay by a list of transfers; the copy loops are one.\<close>

definition fromClient :: "transfer list \<Rightarrow> nat" where
  "fromClient ts = sum_list (map (\<lambda>t. case t of FromClient n \<Rightarrow> n | _ \<Rightarrow> 0) ts)"

definition toDest :: "transfer list \<Rightarrow> nat" where
  "toDest ts = sum_list (map (\<lambda>t. case t of ToDest n \<Rightarrow> n | _ \<Rightarrow> 0) ts)"

definition fromDest :: "transfer list \<Rightarrow> nat" where
  "fromDest ts = sum_list (map (\<lambda>t. case t of FromDest n \<Rightarrow> n | _ \<Rightarrow> 0) ts)"

definition toClient :: "transfer list \<Rightarrow> nat" where
  "toClient ts = sum_list (map (\<lambda>t. case t of ToClient n \<Rightarrow> n | _ \<Rightarrow> 0) ts)"

lemmas transfer_sums = fromClient_def toDest_def fromDest_def toClient_def

lemma transfers_simps [simp]:
  "fromClient [] = 0" "fromClient (t # ts) = (case t of FromClient n \<Rightarrow> n | _ \<Rightarrow> 0) + fromClient ts"
  "toDest [] = 0" "toDest (t # ts) = (case t of ToDest n \<Rightarrow> n | _ \<Rightarrow> 0) + toDest ts"
  "fromDest [] = 0" "fromDest (t # ts) = (case t of FromDest n \<Rightarrow> n | _ \<Rightarrow> 0) + fromDest ts"
  "toClient [] = 0" "toClient (t # ts) = (case t of ToClient n \<Rightarrow> n | _ \<Rightarrow> 0) + toClient ts"
  by (simp_all add: transfer_sums)

lemma transfers_append [simp]:
  "fromClient (xs @ ys) = fromClient xs + fromClient ys" "toClient (xs @ ys) = toClient xs + toClient ys"
  "toDest (xs @ ys) = toDest xs + toDest ys" "fromDest (xs @ ys) = fromDest xs + fromDest ys"
  by (simp_all add: transfer_sums)

lemma relayRun_nil [simp]: "relayRun L u node r [] w = w"
  by (simp add: relayRun_def)

lemma relayRun_snoc [simp]: "relayRun L u node r (ts @ [t]) w = relayStep L u node r t (relayRun L u node r ts w)"
  by (simp add: relayRun_def)

lemma wf_counters:
  assumes "wf_world w"
  shows "is_i64 (fst (counter w k))" "is_i64 (snd (counter w k))"
  using assms by (cases k; cases "userTraffic w k"; auto simp: wf_world_def counter_def is_i64_def)+

lemma handlerExit_counter [simp]: "counter (handlerExit reg c w) = counter w"
  by (rule counter_cong) (simp add: handlerExit_eq removeConn_def Let_def split: option.split)

text \<open>What a list of transfers on a plain path does to the user's counters.\<close>

definition plain :: "relay \<Rightarrow> bool" where
  "plain r \<longleftrightarrow> (case r of VisionRelay _ _ \<Rightarrow> False | MuxRelay _ v \<Rightarrow> \<not> v | _ \<Rightarrow> True)"

lemma plain_step: "plain r \<Longrightarrow> relayStep L u node r = plainTransfer L u node"
  by (cases r) (simp_all add: plain_def)

lemma plainRun_counter:
  assumes "plain r" "is_i64 (fst (counter w (u, node)))" "is_i64 (snd (counter w (u, node)))"
  shows "counter (relayRun L u node r ts w) (u, node) =
     (wrap64 (fst (counter w (u, node)) + int (fromClient ts)), wrap64 (snd (counter w (u, node)) + int (toClient ts)))"
proof (induction ts rule: rev_induct)
  case Nil
  then show ?case using assms(2,3) by (cases "counter w (u, node)") (simp add: wrap64_id)
next
  case (snoc t ts)
  show ?case
  proof (cases t)
    case (FromClient n)
    with snoc show ?thesis
      by (cases "n = 0") (simp_all add: plain_step [OF assms(1)] countingRead_counter countingRead_def [of _ _ _ 0] add.assoc)
  next
    case (ToClient n)
    with snoc show ?thesis by (simp add: plain_step [OF assms(1)] countingWrite_counter add.assoc)
  qed (use snoc in \<open>simp_all add: plain_step [OF assms(1)]\<close>)
qed

lemma plain_tcp [simp]: "plain (TcpRelay a i)" "plain (UdpRelay a i)"
  by (simp_all add: plain_def)

definition transfer_inv :: "('l, 'd) lib \<Rightarrow> uuid \<Rightarrow> string \<Rightarrow> conn \<Rightarrow> relay \<Rightarrow> ('l, 'd) world \<Rightarrow> nat \<Rightarrow> nat
    \<Rightarrow> ('l, 'd) tcp_relay \<Rightarrow> bool" where
  "transfer_inv L u node c r w amount given s \<longleftrightarrow>
     (\<exists>ts. tr_world s = (if tr_returned s then handlerExit (Some u) c (relayRun L u node r ts w) else relayRun L u node r ts w) \<and>
        fromClient ts + length (inBytes (tr_up s)) = amount \<and> toClient ts = given + length (tr_toClient s))"

lemma handlerExit_closes [simp]: "\<not> isOpen c (handlerExit reg c w)"
  by (simp add: handlerExit_eq isOpen_def Let_def)

lemma transfer_inv_closed: "transfer_inv L u node c r w amount given s \<Longrightarrow> tr_returned s \<Longrightarrow> \<not> isOpen c (tr_world s)"
  by (auto simp: transfer_inv_def)

lemma transfer_inv_intro:
  assumes "tr_world s = relayRun L u node r ts w" "\<not> tr_returned s"
    and "fromClient ts + length (inBytes (tr_up s)) = amount" "toClient ts = given + length (tr_toClient s)"
  shows "transfer_inv L u node c r w amount given s"
  using assms unfolding transfer_inv_def by auto

lemma upRound_transfer:
  assumes step: "upRound L u node c nw werr s = Some s'" and inv: "transfer_inv L u node c (TcpRelay a p) w amount given s"
  shows "transfer_inv L u node c (TcpRelay a p) w amount given s'"
proof (cases "isOpen c (tr_world s)")
  case False
  with step have "s' = finishUp s" by (simp add: upRound_def split: if_splits)
  with inv show ?thesis by (simp add: transfer_inv_def finishUp_def)
next
  case True
  with transfer_inv_closed [OF inv] have ret: "\<not> tr_returned s" by blast
  obtain chunk e rest where t: "takeChunk (tr_up s) = ((chunk, e), rest)" by (metis prod.exhaust)
  obtain ts where ts: "tr_world s = relayRun L u node (TcpRelay a p) ts w"
    "fromClient ts + length (inBytes (tr_up s)) = amount" "toClient ts = given + length (tr_toClient s)"
    using inv ret by (auto simp: transfer_inv_def)
  have len: "length (inBytes (tr_up s)) = length chunk + length (inBytes rest)"
    using takeChunk_bytes [OF t, symmetric] by simp
  have "tr_world s' = countingRead L u node (int (length chunk)) (tr_world s)" "tr_up s' = rest"
    "tr_toClient s' = tr_toClient s" "\<not> tr_returned s'"
    using step True ret by (auto simp: upRound_def finishUp_def t Let_def split: if_splits)
  with ts len show ?thesis
    by (intro transfer_inv_intro [where ts = "ts @ [FromClient (length chunk)]"]) simp_all
qed

lemma downRound_transfer:
  assumes step: "downRound L u node c nw werr s = Some s'" and inv: "transfer_inv L u node c (TcpRelay a p) w amount given s"
  shows "transfer_inv L u node c (TcpRelay a p) w amount given s'"
proof (cases "tr_returned s")
  case True
  with step have "s' = finishDown s" by (simp add: downRound_def split: if_splits)
  with inv show ?thesis by (simp add: transfer_inv_def finishDown_def)
next
  case ret: False
  obtain chunk e rest where t: "takeChunk (tr_down s) = ((chunk, e), rest)" by (metis prod.exhaust)
  obtain ts where ts: "tr_world s = relayRun L u node (TcpRelay a p) ts w"
    "fromClient ts + length (inBytes (tr_up s)) = amount" "toClient ts = given + length (tr_toClient s)"
    using inv ret by (auto simp: transfer_inv_def)
  have same: "tr_up s' = tr_up s" "\<not> tr_returned s'"
    using step ret by (auto simp: downRound_def finishDown_def t Let_def split: if_splits)
  consider "tr_world s' = tr_world s" "tr_toClient s' = tr_toClient s"
    | "tr_world s' = countingWrite L u node (int (min nw (length chunk))) (tr_world s)"
      "tr_toClient s' = tr_toClient s @ take nw chunk"
    using step ret by (auto simp: downRound_def finishDown_def t Let_def split: if_splits)
  then show ?thesis
  proof cases
    case 1
    with ts same show ?thesis by (intro transfer_inv_intro [where ts = ts]) simp_all
  next
    case 2
    with ts same show ?thesis
      by (intro transfer_inv_intro [where ts = "ts @ [ToClient (min nw (length chunk))]"]) (simp_all add: min.commute)
  qed
qed

lemma mainReturn_transfer:
  assumes "mainReturn u c s = Some s'" "transfer_inv L u node c (TcpRelay a p) w amount given s"
  shows "transfer_inv L u node c (TcpRelay a p) w amount given s'"
  using assms by (auto simp: mainReturn_def transfer_inv_def split: if_splits)

lemma tcpStep_transfer:
  assumes "tcpStep L u node c e s = Some s'" "e \<noteq> CloseClient" "transfer_inv L u node c (TcpRelay a p) w amount given s"
  shows "transfer_inv L u node c (TcpRelay a p) w amount given s'"
  using assms(1,2)
  by (cases e) (simp_all add: upRound_transfer [OF _ assms(3)] downRound_transfer [OF _ assms(3)] mainReturn_transfer [OF _ assms(3)])

interpretation tcp_transfers: machine "tcpStep L u node c" "transfer_inv L u node c (TcpRelay a p) w amount given"
    "\<lambda>e. e \<noteq> CloseClient" for L u node c a p w amount given
  by unfold_locales (rule tcpStep_transfer)

text \<open>After the handler has returned nothing is written to either side.\<close>

definition over :: "conn \<Rightarrow> ('l, 'd) tcp_relay \<Rightarrow> bool" where
  "over c s \<longleftrightarrow> tr_returned s \<and> \<not> isOpen c (tr_world s)"

lemma over_step:
  assumes "tcpStep L u node c e s = Some s'" "over c s"
  shows "over c s' \<and> tr_toClient s' = tr_toClient s \<and> tr_toDest s' = tr_toDest s"
proof (cases e)
  case (Up nw werr)
  with assms show ?thesis by (auto simp: upRound_def finishUp_def over_def split: if_splits)
next
  case (Down nw werr)
  with assms show ?thesis by (auto simp: downRound_def finishDown_def over_def split: if_splits)
next
  case Return
  with assms show ?thesis by (auto simp: mainReturn_def over_def split: if_splits)
next
  case CloseClient
  with assms show ?thesis by (auto simp: over_def isOpen_def)
qed

lemma over_run:
  "tcp_run L u node c s es s' \<Longrightarrow> over c s \<Longrightarrow> over c s' \<and> tr_toClient s' = tr_toClient s \<and> tr_toDest s' = tr_toDest s"
proof (induction rule: runs.induct)
  case (snoc s es s' e s'')
  then show ?case using over_step [OF snoc.hyps(2)] by simp
qed simp

lemma tcpStart_fields:
  "tcpStart d o' up down initial w = Some s \<Longrightarrow> s = \<lparr>tr_world = w, tr_up = up, tr_down = down, tr_toDest = initial,
     tr_toClient = [], tr_upDone = False, tr_downDone = False, tr_destFin = False, tr_clientFin = False, tr_returned = False\<rparr>"
  by (simp add: tcpStart_def split: if_splits)

section \<open>Rounds and finer interleavings\<close>

text \<open>A round reads, counts and writes in one step. Between its \<open>Read\<close> and its \<open>Write\<close> the other goroutines may run; the
  two halves and the lemmas below show that this adds no outcome: whatever happens in between can be moved after
  the write, provided a write that comes after the end of the handler is taken as one that fails at once.\<close>

definition upRead :: "('l, 'd) lib \<Rightarrow> uuid \<Rightarrow> string \<Rightarrow> ('l, 'd) tcp_relay \<Rightarrow> (byte list \<times> bool) \<times> ('l, 'd) tcp_relay" where
  "upRead L u node s =
     (let ((chunk, e), rest) = takeChunk (tr_up s)
      in ((chunk, e), s\<lparr>tr_up := rest, tr_world := countingRead L u node (int (length chunk)) (tr_world s)\<rparr>))"

definition upWrite :: "nat \<Rightarrow> bool \<Rightarrow> byte list \<times> bool \<Rightarrow> ('l, 'd) tcp_relay \<Rightarrow> ('l, 'd) tcp_relay" where
  "upWrite nw werr r s =
     (let (chunk, e) = r
      in if chunk = [] then (if e then finishUp s else s)
         else if tr_returned s then finishUp s
         else (let s2 = s\<lparr>tr_toDest := tr_toDest s @ take nw chunk\<rparr>
               in if werr \<or> nw < length chunk \<or> e then finishUp s2 else s2))"

definition downRead :: "('l, 'd) tcp_relay \<Rightarrow> (byte list \<times> bool) \<times> ('l, 'd) tcp_relay" where
  "downRead s = (let ((chunk, e), rest) = takeChunk (tr_down s) in ((chunk, e), s\<lparr>tr_down := rest\<rparr>))"

definition downWrite :: "('l, 'd) lib \<Rightarrow> uuid \<Rightarrow> string \<Rightarrow> conn \<Rightarrow> nat \<Rightarrow> bool \<Rightarrow> byte list \<times> bool \<Rightarrow> ('l, 'd) tcp_relay \<Rightarrow> ('l, 'd) tcp_relay" where
  "downWrite L u node c nw werr r s =
     (let (chunk, e) = r
      in if chunk = [] then (if e then finishDown s else s)
         else if \<not> isOpen c (tr_world s) then finishDown s
         else (let s2 = s\<lparr>tr_toClient := tr_toClient s @ take nw chunk,
                         tr_world := countingWrite L u node (int (min nw (length chunk))) (tr_world s)\<rparr>
               in if werr \<or> nw < length chunk \<or> e then finishDown s2 else s2))"

lemma upRound_halves:
  "upRound L u node c nw werr s =
     (if tr_upDone s then None else if \<not> isOpen c (tr_world s) then Some (finishUp s)
      else (let (r, s1) = upRead L u node s in Some (upWrite nw werr r s1)))"
  by (auto simp: upRound_def upRead_def upWrite_def Let_def split: prod.split)

lemma downRound_halves:
  "downRound L u node c nw werr s =
     (if tr_downDone s then None else if tr_returned s then Some (finishDown s)
      else (let (r, s1) = downRead s in Some (downWrite L u node c nw werr r s1)))"
  by (auto simp: downRound_def downRead_def downWrite_def Let_def split: prod.split)

abbreviation setUp :: "byte list \<Rightarrow> bool \<Rightarrow> bool \<Rightarrow> ('l, 'd) tcp_relay \<Rightarrow> ('l, 'd) tcp_relay" where
  "setUp a b d s \<equiv> s\<lparr>tr_toDest := a, tr_upDone := b, tr_destFin := d\<rparr>"

lemma downRound_setUp: "downRound L u node c n e (setUp a b d s) = map_option (setUp a b d) (downRound L u node c n e s)"
  by (simp add: downRound_def finishDown_def Let_def split: prod.split)

lemma upWrite_setUp: "\<exists>a b d. upWrite nw werr r s = setUp a b d s \<and>
    (\<forall>s'. tr_toDest s' = tr_toDest s \<and> tr_upDone s' = tr_upDone s \<and> tr_destFin s' = tr_destFin s \<and> tr_returned s' = tr_returned s
      \<longrightarrow> upWrite nw werr r s' = setUp a b d s')"
proof (cases r)
  case (Pair chunk e)
  consider "chunk = []" "e" | "chunk = []" "\<not> e" | "chunk \<noteq> []" "tr_returned s" | "chunk \<noteq> []" "\<not> tr_returned s" "werr \<or> nw < length chunk \<or> e"
    | "chunk \<noteq> []" "\<not> tr_returned s" "\<not> (werr \<or> nw < length chunk \<or> e)" by blast
  then show ?thesis
  proof cases
    case 1
    with Pair show ?thesis
      by (intro exI [of _ "tr_toDest s"] exI [of _ True]) (simp add: upWrite_def finishUp_def)
  next
    case 2
    with Pair show ?thesis
      by (intro exI [of _ "tr_toDest s"] exI [of _ "tr_upDone s"] exI [of _ "tr_destFin s"]) (simp add: upWrite_def)
  next
    case 3
    with Pair show ?thesis
      by (intro exI [of _ "tr_toDest s"] exI [of _ True]) (simp add: upWrite_def finishUp_def)
  next
    case 4
    with Pair show ?thesis
      by (intro exI [of _ "tr_toDest s @ take nw chunk"] exI [of _ True]) (simp add: upWrite_def finishUp_def Let_def)
  next
    case 5
    with Pair show ?thesis
      by (intro exI [of _ "tr_toDest s @ take nw chunk"] exI [of _ "tr_upDone s"] exI [of _ "tr_destFin s"])
        (simp add: upWrite_def finishUp_def Let_def)
  qed
qed

lemma downRound_keeps:
  "downRound L u node c n e s = Some s' \<Longrightarrow> tr_toDest s' = tr_toDest s \<and> tr_upDone s' = tr_upDone s \<and> tr_destFin s' = tr_destFin s \<and>
     tr_returned s' = tr_returned s"
  by (auto simp: downRound_def finishDown_def Let_def split: prod.splits if_splits)

text \<open>A step of another goroutine between the read and the write of an uplink round can as well come after it.\<close>

lemma upWrite_moves:
  assumes "tcpStep L u node c ev s = Some s'" "\<forall>n e. ev \<noteq> Up n e"
  shows "\<exists>nw' werr'. tcpStep L u node c ev (upWrite nw' werr' r s) = Some (upWrite nw werr r s')"
proof (cases ev)
  case (Up n e)
  with assms(2) have False by blast
  then show ?thesis ..
next
  case (Down n e)
  obtain a b d where w: "upWrite nw werr r s = setUp a b d s" "tr_toDest s' = tr_toDest s \<and> tr_upDone s' = tr_upDone s \<and>
      tr_destFin s' = tr_destFin s \<and> tr_returned s' = tr_returned s \<longrightarrow> upWrite nw werr r s' = setUp a b d s'"
    using upWrite_setUp [of nw werr r s] by blast
  from Down assms(1) have d: "downRound L u node c n e s = Some s'" by simp
  with w downRound_keeps [OF d] have "downRound L u node c n e (upWrite nw werr r s) = Some (upWrite nw werr r s')"
    by (simp add: downRound_setUp)
  with Down show ?thesis by (intro exI [of _ nw] exI [of _ werr]) simp
next
  case Return
  then have s': "\<not> tr_returned s" "tr_upDone s \<or> tr_downDone s" "s' = s\<lparr>tr_returned := True, tr_world := handlerExit (Some u) c (tr_world s)\<rparr>"
    using assms by (auto simp: mainReturn_def split: if_splits)
  obtain chunk e where r: "r = (chunk, e)" by (cases r)
  have "mainReturn u c (upWrite 0 True r s) = Some (upWrite nw werr r s')"
    using s' by (cases "chunk = []"; cases e) (simp_all add: r mainReturn_def upWrite_def finishUp_def)
  with Return show ?thesis by (intro exI [of _ 0] exI [of _ True]) simp
next
  case CloseClient
  with assms(1) have s': "s' = s\<lparr>tr_world := (tr_world s)\<lparr>closed := insert c (closed (tr_world s))\<rparr>\<rparr>" by simp
  have "tr_toDest s' = tr_toDest s \<and> tr_upDone s' = tr_upDone s \<and> tr_destFin s' = tr_destFin s \<and> tr_returned s' = tr_returned s"
    by (simp add: s')
  then obtain a b d where w: "upWrite nw werr r s = setUp a b d s" "upWrite nw werr r s' = setUp a b d s'"
    using upWrite_setUp [of nw werr r s] by blast
  have "tcpStep L u node c CloseClient (upWrite nw werr r s) = Some (upWrite nw werr r s')"
    unfolding w by (simp add: s')
  with CloseClient show ?thesis by (intro exI [of _ nw] exI [of _ werr]) simp
qed

text \<open>For the downlink it is the read that can come later, except past the end of the handler, where the write fails.\<close>

abbreviation setDown :: "netin \<Rightarrow> ('l, 'd) tcp_relay \<Rightarrow> ('l, 'd) tcp_relay" where
  "setDown rest s \<equiv> s\<lparr>tr_down := rest\<rparr>"

lemma downRead_moves:
  assumes "tcpStep L u node c ev s = Some s'" "\<forall>n e. ev \<noteq> Down n e" "downRead s = (r, s1)"
  shows "(ev \<noteq> Return \<longrightarrow> (\<exists>s1'. downRead s' = (r, s1') \<and> tcpStep L u node c ev s1 = Some s1')) \<and>
    (ev = Return \<longrightarrow> (\<exists>s1'. tcpStep L u node c Return s1 = Some s1' \<and>
       tcpStep L u node c Return (downWrite L u node c 0 True r s1) = Some (downWrite L u node c nw werr r s1')))"
proof -
  obtain rest where s1: "s1 = setDown rest s" and down: "takeChunk (tr_down s) = (r, rest)"
    using assms(3) by (auto simp: downRead_def split: prod.splits)
  obtain chunk e where r: "r = (chunk, e)" by (cases r)
  show ?thesis
  proof (cases ev)
    case (Up n we)
    then have u: "upRound L u node c n we s = Some s'" using assms(1) by simp
    then have "upRound L u node c n we (setDown rest s) = Some (setDown rest s')" "tr_down s' = tr_down s"
      by (auto simp: upRound_def finishUp_def Let_def split: prod.splits if_splits)
    with Up down r show ?thesis by (simp add: s1 downRead_def)
  next
    case (Down n we)
    with assms(2) have False by blast
    then show ?thesis ..
  next
    case Return
    then have s': "\<not> tr_returned s" "tr_upDone s \<or> tr_downDone s" using assms by (auto simp: mainReturn_def split: if_splits)
    have "mainReturn u c (downWrite L u node c 0 True r s1) =
        Some (downWrite L u node c nw werr r (s1\<lparr>tr_returned := True, tr_world := handlerExit (Some u) c (tr_world s1)\<rparr>))"
      using s' by (cases "chunk = []"; cases e; cases "isOpen c (tr_world s)")
        (simp_all add: r s1 mainReturn_def downWrite_def finishDown_def countingWrite_def)
    with Return s' show ?thesis by (simp add: s1 mainReturn_def)
  next
    case CloseClient
    with assms(1) down r show ?thesis by (auto simp: s1 downRead_def)
  qed
qed

section \<open>Properties\<close>

text \<open>C15: Whatever order the two copy loops, the end of the handler and a close from outside run in, what reaches
  the destination is a prefix of the bytes read with the header followed by what the client sent, and what
  reaches the client is a prefix of what the destination sent. As long as the handler has not returned, nothing
  failed and nobody closed the client's connection, a direction that has ended has delivered everything. When the
  handler then returns, what was delivered is final: everything in the direction that ended first, and in the
  other one only what had been delivered by then.\<close>

theorem tcp_relay_delivers:
  assumes "tcpStart dialOk writeOk up down initial w = Some s" "tcp_run L u node c s es s'"
  shows "prefix (tr_toDest s') (initial @ inBytes up) \<and> prefix (tr_toClient s') (inBytes down) \<and>
    (clean up \<and> clean down \<and> list_all full_event es \<and> isOpen c (tr_world s') \<longrightarrow>
       (tr_upDone s' \<longrightarrow> tr_toDest s' = initial @ inBytes up) \<and> (tr_downDone s' \<longrightarrow> tr_toClient s' = inBytes down) \<and>
       (\<forall>s1 es2 s2. tcpStep L u node c Return s' = Some s1 \<and> tcp_run L u node c s1 es2 s2 \<longrightarrow>
          tr_toDest s2 = tr_toDest s' \<and> tr_toClient s2 = tr_toClient s' \<and>
          (tr_toDest s2 = initial @ inBytes up \<or> tr_toClient s2 = inBytes down)))"
proof -
  let ?sent = "initial @ inBytes up" and ?answer = "inBytes down"
  have "delivered_inv ?sent ?answer s'"
    using tcp_delivery.run_inv [OF assms(2) _ tcpStart_delivered [OF assms(1)]] by (simp add: list_all_iff)
  then have pre: "prefix (tr_toDest s') ?sent" "prefix (tr_toClient s') ?answer" by (auto simp: delivered_inv_def prefix_def)
  have after: "tr_toDest s2 = tr_toDest s' \<and> tr_toClient s2 = tr_toClient s' \<and> (tr_upDone s' \<or> tr_downDone s')"
    if "tcpStep L u node c Return s' = Some s1" "tcp_run L u node c s1 es2 s2" for s1 es2 s2
  proof -
    have s1: "tr_upDone s' \<or> tr_downDone s'" "s1 = s'\<lparr>tr_returned := True, tr_world := handlerExit (Some u) c (tr_world s')\<rparr>"
      using that(1) by (auto simp: mainReturn_def split: if_splits)
    then have "over c s1" by (simp add: over_def)
    from over_run [OF that(2) this] s1 show ?thesis by simp
  qed
  have "(tr_upDone s' \<longrightarrow> tr_toDest s' = ?sent) \<and> (tr_downDone s' \<longrightarrow> tr_toClient s' = ?answer)"
    if "clean up \<and> clean down \<and> list_all full_event es \<and> isOpen c (tr_world s')"
  proof -
    have "complete_inv ?sent ?answer s"
      using that tcpStart_fields [OF assms(1)] by (simp add: complete_inv_def)
    with complete_run [OF assms(2)] that have "complete_inv ?sent ?answer s'" by blast
    then show ?thesis by (auto simp: complete_inv_def inBytes_def)
  qed
  with pre after show ?thesis by metis
qed

text \<open>C17: The relay ends. Every run takes at most as many steps (closes from outside apart) as the scripts of the two
  peers allow, and until both copies and the handler have ended some step is possible: when the peers end their
  streams the handler returns.\<close>

theorem tcp_relay_terminates:
  assumes "tcpStart dialOk writeOk up down initial w = Some s" "tcp_run L u node c s es s'"
  shows "length (filter (\<lambda>e. e \<noteq> CloseClient) es) \<le> 3 + scriptSize up + scriptSize down \<and>
    ((\<exists>e s''. e \<noteq> CloseClient \<and> tcpStep L u node c e s' = Some s'') \<or> (tr_upDone s' \<and> tr_downDone s' \<and> tr_returned s'))"
  using tcp_run_measure [OF assms(2)] tcp_progress [of L u node c s'] tcpStart_fields [OF assms(1)]
  by (auto simp: tcpMeasure_def)

text \<open>C16: The two copy loops implement the relay that \<open>handleConnection\<close> is stated over. When the handler has
  returned, the server is what the abstract relay leaves after some list of transfers followed by the clean-up;
  its uplink transfers are exactly the bytes read from the client, its downlink transfers exactly the bytes
  written to it, and the user's counters for the entry point grew by exactly these bytes.\<close>

theorem tcp_relay_refines:
  assumes "tcpStart dialOk writeOk up down initial w = Some s" "tcp_run L u node c s es s'"
    and "CloseClient \<notin> set es" "tr_returned s'" "wf_world w"
  shows "(\<exists>ts. tr_world s' = handlerExit (Some u) c (relayRun L u node (TcpRelay a initial) ts w) \<and>
      fromClient ts + length (inBytes (tr_up s')) = length (inBytes up) \<and> toClient ts = length (tr_toClient s')) \<and>
    counter (tr_world s') (u, node) =
      (wrap64 (fst (counter w (u, node)) + int (length (inBytes up) - length (inBytes (tr_up s')))),
       wrap64 (snd (counter w (u, node)) + int (length (tr_toClient s'))))"
proof -
  have "transfer_inv L u node c (TcpRelay a initial) w (length (inBytes up)) 0 s"
    using tcpStart_fields [OF assms(1)] by (intro transfer_inv_intro [where ts = "[]"]) simp_all
  from tcp_transfers.run_inv [OF assms(2) _ this] assms(3,4)
  obtain ts where ts: "tr_world s' = handlerExit (Some u) c (relayRun L u node (TcpRelay a initial) ts w)"
    "fromClient ts + length (inBytes (tr_up s')) = length (inBytes up)" "toClient ts = length (tr_toClient s')"
    by (auto simp: transfer_inv_def list_all_iff)
  have "fromClient ts = length (inBytes up) - length (inBytes (tr_up s'))" using ts(2) by simp
  with ts plainRun_counter [OF plain_tcp(1) wf_counters [OF assms(5), of "(u, node)"], of L a initial ts] show ?thesis by auto
qed

text \<open>C18: A client that half-closes its side after the request can lose the whole answer. The uplink copy ends and
  half-closes the destination, but the handler waits for the first of the two copies only: it may return at
  once, and then nothing the destination answers reaches the client any more.\<close>

theorem half_close_loses_answer:
  assumes "tcpStart True True [] down initial w = Some s" "isOpen c w"
  shows "\<exists>s'. tcp_run L u node c s [Up 0 False, Return] s' \<and> tr_destFin s' \<and> tr_toDest s' = initial \<and>
    (\<forall>es s''. tcp_run L u node c s' es s'' \<longrightarrow> tr_toClient s'' = [])"
proof -
  define s1 where "s1 = finishUp (s\<lparr>tr_world := countingRead L u node 0 w\<rparr>)"
  define s2 where "s2 = s1\<lparr>tr_returned := True, tr_world := handlerExit (Some u) c (tr_world s1)\<rparr>"
  note s = tcpStart_fields [OF assms(1)]
  have "tcpStep L u node c (Up 0 False) s = Some s1" using assms(2) by (simp add: s upRound_def s1_def finishUp_def)
  then have "tcp_run L u node c s [Up 0 False] s1" by (rule runs_one)
  moreover have "tcpStep L u node c Return s1 = Some s2" by (simp add: mainReturn_def s2_def s1_def finishUp_def s)
  ultimately have "tcp_run L u node c s ([Up 0 False] @ [Return]) s2" by (rule runs.snoc)
  moreover have "over c s2" "tr_toClient s2 = []" "tr_destFin s2" "tr_toDest s2 = initial"
    by (simp_all add: over_def s2_def s1_def finishUp_def s)
  ultimately show ?thesis using over_run by (intro exI [of _ s2]) fastforce
qed

section \<open>Witnesses\<close>

text \<open>One byte up with the header, one after it, two down; then both ends close.\<close>

definition exRelay :: "((nat \<times> int \<times> int), unit) tcp_relay" where
  "exRelay = \<lparr>tr_world = exServer, tr_up = [([2], False)], tr_down = [([3, 4], False)], tr_toDest = [1], tr_toClient = [],
     tr_upDone = False, tr_downDone = False, tr_destFin = False, tr_clientFin = False, tr_returned = False\<rparr>"

lemma exRelay_start: "tcpStart True True [([2], False)] [([3, 4], False)] [1] exServer = Some exRelay"
  by (simp add: tcpStart_def exRelay_def)

lemma counting_uncapped:
  assumes "userQuota w u = None"
  shows "closed (countingRead L u node n w) = closed w \<and> userQuota (countingRead L u node n w) = userQuota w"
    "closed (countingWrite L u node n w) = closed w \<and> userQuota (countingWrite L u node n w) = userQuota w"
  using assms by (simp_all add: countingRead_def countingWrite_def addTraffic_quota accrueQuotaLocked_def limitedRead_def limitedWrite_def)

definition exEvents :: "tcp_event list" where
  "exEvents = [Up copyBuf False, Down copyBuf False, Down copyBuf False, Up copyBuf False]"

definition exEnd :: "((nat \<times> int \<times> int), unit) tcp_relay" where
  "exEnd = exRelay\<lparr>tr_world := countingRead exLib exUUID [] 0 (countingWrite exLib exUUID [] 2 (countingRead exLib exUUID [] 1 exServer)),
     tr_up := [], tr_down := [], tr_toDest := [1, 2], tr_toClient := [3, 4], tr_upDone := True, tr_destFin := True,
     tr_downDone := True, tr_clientFin := True\<rparr>"

definition exReturned :: "((nat \<times> int \<times> int), unit) tcp_relay" where
  "exReturned = exEnd\<lparr>tr_returned := True, tr_world := handlerExit (Some exUUID) 7 (tr_world exEnd)\<rparr>"

lemma exOpen [simp]: "isOpen 7 (countingWrite exLib exUUID [] 2 (countingRead exLib exUUID [] 1 exServer))"
  "isOpen 7 (countingRead exLib exUUID [] n exServer)"
  "isOpen 7 (countingRead exLib exUUID [] 0 (countingWrite exLib exUUID [] 2 (countingRead exLib exUUID [] 1 exServer)))"
  by (simp_all add: isOpen_def counting_uncapped)

lemma exRelay_run: "tcp_run exLib exUUID [] 7 exRelay exEvents exEnd"
  by (rule runs_exec)
    (simp add: exEvents_def exRelay_def exEnd_def upRound_def downRound_def finishUp_def finishDown_def copyBuf_def isOpen_def counting_uncapped)

lemma exRelay_returned: "tcp_run exLib exUUID [] 7 exRelay (exEvents @ [Return]) exReturned"
  by (rule runs.snoc [OF exRelay_run]) (simp add: mainReturn_def exReturned_def exEnd_def exRelay_def)

theorem tcp_relay_delivers_witness: "tr_toDest exEnd = [1] @ inBytes [([2], False)] \<and> tr_toClient exEnd = inBytes [([3, 4], False)] \<and>
  (tr_toDest exReturned = [1] @ inBytes [([2], False)] \<or> tr_toClient exReturned = inBytes [([3, 4], False)])"
proof -
  have "clean [([2], False)] \<and> clean [([3, 4], False)] \<and> list_all full_event exEvents \<and> isOpen 7 (tr_world exEnd)"
    by (simp add: clean_def exEvents_def full_event_def exEnd_def)
  moreover have "tr_upDone exEnd" "tr_downDone exEnd" by (simp_all add: exEnd_def)
  moreover have "tcpStep exLib exUUID [] 7 Return exEnd = Some exReturned"
    by (simp add: mainReturn_def exReturned_def exEnd_def exRelay_def)
  moreover have "tcp_run exLib exUUID [] 7 exReturned [] exReturned" by (rule runs.nil)
  ultimately show ?thesis using tcp_relay_delivers [OF exRelay_start exRelay_run] by metis
qed

theorem tcp_relay_terminates_witness:
  "length (filter (\<lambda>e. e \<noteq> CloseClient) exEvents) \<le> 3 + scriptSize [([2 :: byte], False)] + scriptSize [([3 :: byte, 4], False)]"
  using tcp_relay_terminates [OF exRelay_start exRelay_run] by blast

theorem tcp_relay_refines_witness:
  "\<exists>ts. tr_world exReturned = handlerExit (Some exUUID) 7 (relayRun exLib exUUID [] (TcpRelay [] [1]) ts exServer) \<and>
    fromClient ts = 1 \<and> toClient ts = 2"
proof -
  have "CloseClient \<notin> set (exEvents @ [Return])" "tr_returned exReturned" "tr_up exReturned = []" "tr_toClient exReturned = [3, 4]"
    by (simp_all add: exEvents_def exReturned_def exEnd_def)
  with tcp_relay_refines [OF exRelay_start exRelay_returned _ _ exServer_wf, where a = "[]"] show ?thesis
    by (simp add: inBytes_def numeral_2_eq_2)
qed

theorem half_close_loses_answer_witness:
  "\<exists>s'. tcp_run exLib exUUID [] 7 (exRelay\<lparr>tr_up := []\<rparr>) [Up 0 False, Return] s' \<and> tr_destFin s' \<and> tr_toDest s' = [1] \<and>
    (\<forall>es s''. tcp_run exLib exUUID [] 7 s' es s'' \<longrightarrow> tr_toClient s'' = [])"
proof -
  have "tcpStart True True [] [([3, 4], False)] [1] exServer = Some (exRelay\<lparr>tr_up := []\<rparr>)" by (simp add: tcpStart_def exRelay_def)
  then show ?thesis by (rule half_close_loses_answer) simp
qed

end
