(* ===== verification/Udp_Relay.thy ===== *)
theory Udp_Relay
  imports Tcp_Relay
begin

text \<open>
  \<open>handleUDP\<close> of \<open>proxy/vless/udp.go\<close>: datagrams over the client's byte stream, each after a two-byte big-endian
  length. One goroutine reads frames from the bytes that came with the header followed by the connection
  (\<open>io.MultiReader\<close>) and sends their payloads; the other reads datagrams into a 2048-byte buffer and writes them as
  frames. The handler waits for the first of the two to end. A step is one iteration of a loop, the end of the
  handler, or another goroutine closing the client's connection.
\<close>

section \<open>Frames\<close>

definition putUint16 :: "nat \<Rightarrow> byte list" where
  "putUint16 n = [word_of_nat (n div 256), word_of_nat n]"

definition getUint16 :: "byte list \<Rightarrow> nat" where
  "getUint16 bs = 256 * unat (bs ! 0) + unat (bs ! 1)"

lemma getUint16_put: "n < 65536 \<Longrightarrow> getUint16 (putUint16 n) = n"
proof -
  assume "n < 65536"
  then have "n div 256 < 256" by simp
  then show ?thesis by (simp add: getUint16_def putUint16_def unat_of_nat)
qed

definition putFrame :: "byte list \<Rightarrow> byte list" where
  "putFrame d = putUint16 (length d) @ d"

definition getFrame :: "byte list \<Rightarrow> (byte list \<times> byte list) option" where
  "getFrame bs =
     (if length bs < 2 then None
      else (let n = getUint16 (take 2 bs); rest = drop 2 bs
            in if length rest < n then None else Some (take n rest, drop n rest)))"

lemma getFrame_put: "length d < 65536 \<Longrightarrow> getFrame (putFrame d @ rest) = Some (d, rest)"
  using getUint16_put [of "length d"] by (simp add: getFrame_def putFrame_def putUint16_def Let_def)

interpretation udp_frame: codec putFrame getFrame "\<lambda>d. length d < 65536"
  by unfold_locales (rule getFrame_put)

interpretation udp_frames: stream_codec putFrame getFrame "\<lambda>d. length d < 65536"
  by unfold_locales (simp add: putFrame_def putUint16_def)

section \<open>Reading from the joined streams\<close>

text \<open>\<open>io.ReadFull\<close> of \<open>n\<close> bytes from the initial data followed by the connection. Only the connection's bytes are
  counted here; the initial data was counted when it was read.\<close>

definition readFull :: "(nat \<Rightarrow> 'w \<Rightarrow> 'w) \<Rightarrow> ('w \<Rightarrow> bool) \<Rightarrow> nat \<Rightarrow> byte list \<Rightarrow> netin \<Rightarrow> 'w
    \<Rightarrow> (byte list \<times> bool) \<times> byte list \<times> netin \<times> 'w" where
  "readFull onRead alive n pending evs w =
     (if n \<le> length pending then ((take n pending, True), drop n pending, evs, w)
      else (let ((d, ok), rest, w1) = readAtLeast onRead alive (n - length pending) (n - length pending) evs w
            in ((pending @ d, ok), [], rest, w1)))"

lemma readFull_bytes:
  assumes "readFull onRead alive n pending evs w = ((d, ok), pending', evs', w')"
  shows "d @ pending' @ inBytes evs' = pending @ inBytes evs \<and> (ok \<longleftrightarrow> length d = n) \<and> length d \<le> n"
proof (cases "n \<le> length pending")
  case True
  with assms show ?thesis by (auto simp: readFull_def)
next
  case False
  obtain d1 ok1 rest w1 where r: "readLoop onRead alive (n - length pending) (n - length pending) evs [] w = ((d1, ok1), rest, w1)"
    by (metis prod.exhaust)
  from readLoop_bytes [OF r] readLoop_ok [OF r] have "d1 @ inBytes rest = inBytes evs" "length d1 \<le> n - length pending"
    "ok1 \<longleftrightarrow> n - length pending \<le> length d1" by auto
  with assms False show ?thesis by (auto simp: readFull_def readAtLeast_def r)
qed

text \<open>On a clean input a read that ends short has exhausted it, unless the connection was closed on this side.\<close>

lemma readLoop_exhausted:
  "readLoop onRead alive cap need evs acc w = ((bs, ok), evs', w') \<Longrightarrow> clean evs \<Longrightarrow> alive w' \<Longrightarrow> need \<le> cap \<Longrightarrow>
   clean evs' \<and> (\<not> ok \<longrightarrow> evs' = [])"
proof (induction onRead alive cap need evs acc w rule: readLoop.induct)
  case (1 onRead alive cap need acc w)
  then show ?case by (simp add: clean_def)
next
  case (2 onRead alive cap need d e evs acc w)
  from 2(3) have ce: "\<not> e" "clean evs" by (simp_all add: clean_def)
  consider (enough) "need \<le> length acc" | (dead) "\<not> need \<le> length acc" "\<not> alive w"
    | (more) "\<not> need \<le> length acc" "alive w" "length d \<le> cap - length acc"
    | (full) "\<not> need \<le> length acc" "alive w" "\<not> length d \<le> cap - length acc"
    by blast
  then show ?case
  proof cases
    case enough
    with 2(2,3) show ?thesis by simp
  next
    case dead
    with 2(2,4) show ?thesis by simp
  next
    case more
    let ?w = "if d = [] then w else onRead (length d) w"
    from more 2(2) ce have "readLoop onRead alive cap need evs (acc @ d) ?w = ((bs, ok), evs', w')"
      by (simp add: Let_def)
    then show ?thesis using 2(1) [OF _ _ refl more(3) refl ce(1)] more ce 2(4,5) by simp
  next
    case full
    with 2(2) have "ok" "evs' = (drop (cap - length acc) d, e) # evs" by (auto simp: Let_def)
    with ce show ?thesis by (simp add: clean_def)
  qed
qed

lemma readFull_exhausted:
  assumes "readFull onRead alive n pending evs w = ((d, ok), pending', evs', w')" "clean evs" "alive w'"
  shows "clean evs' \<and> (\<not> ok \<longrightarrow> pending' = [] \<and> evs' = [])"
proof (cases "n \<le> length pending")
  case True
  with assms show ?thesis by (auto simp: readFull_def)
next
  case False
  obtain d1 ok1 rest w1 where r: "readLoop onRead alive (n - length pending) (n - length pending) evs [] w = ((d1, ok1), rest, w1)"
    by (metis prod.exhaust)
  from assms(1) False have eq: "ok1 = ok" "rest = evs'" "w1 = w'" "pending' = []" by (simp_all add: readFull_def readAtLeast_def r)
  have "alive w1" using assms(3) eq by simp
  from readLoop_exhausted [OF r assms(2) this order_refl] eq show ?thesis by simp
qed

text \<open>Closing is final: if the connection is open after a read it was open before.\<close>

lemma fold_countingRead_closed: "closed w \<subseteq> closed (fold (\<lambda>k. countingRead L u node (int k)) ns w)"
proof (induction ns arbitrary: w)
  case (Cons n ns)
  show ?case using closed_grows(1) [of w L u node "int n"] Cons [of "countingRead L u node (int n) w"] by simp
qed simp

lemma readFull_closed:
  assumes "readFull (\<lambda>k. countingRead L u node (int k)) alive n pending evs w = ((d, ok), pending', evs', w')"
  shows "closed w \<subseteq> closed w'"
proof (cases "n \<le> length pending")
  case True
  with assms show ?thesis by (simp add: readFull_def)
next
  case False
  obtain d1 ok1 rest w1 where r: "readLoop (\<lambda>k. countingRead L u node (int k)) alive (n - length pending) (n - length pending) evs [] w
      = ((d1, ok1), rest, w1)"
    by (metis prod.exhaust)
  from readLoop_accounts [OF r] obtain ns where "w1 = fold (\<lambda>k. countingRead L u node (int k)) ns w" by auto
  moreover from assms False have "w' = w1" by (simp add: readFull_def readAtLeast_def r)
  ultimately show ?thesis using fold_countingRead_closed [of w L u node ns] by simp
qed

section \<open>The state and the steps\<close>

record ('l, 'd) udp_relay =
  ur_world :: "('l, 'd) world"
  ur_pending :: "byte list"
  ur_up :: netin
  ur_down :: "byte list option list"
  ur_sent :: "byte list list"
  ur_toClient :: "byte list"
  ur_upDone :: bool
  ur_downDone :: bool
  ur_returned :: bool

definition udpStart :: "bool \<Rightarrow> netin \<Rightarrow> byte list option list \<Rightarrow> byte list \<Rightarrow> ('l, 'd) world \<Rightarrow> ('l, 'd) udp_relay option" where
  "udpStart dialOk up down initial w =
     (if \<not> dialOk then None
      else Some \<lparr>ur_world = w, ur_pending = initial, ur_up = up, ur_down = down, ur_sent = [], ur_toClient = [],
                 ur_upDone = False, ur_downDone = False, ur_returned = False\<rparr>)"

text \<open>Client to destination: the length, the payload, the datagram. \<open>werr\<close>: the socket's \<open>Write\<close> fails.\<close>

definition udpUp :: "('l, 'd) lib \<Rightarrow> uuid \<Rightarrow> string \<Rightarrow> conn \<Rightarrow> bool \<Rightarrow> ('l, 'd) udp_relay \<Rightarrow> ('l, 'd) udp_relay option" where
  "udpUp L u node c werr s =
     (if ur_upDone s then None
      else
        (let readN = (\<lambda>n s. readFull (\<lambda>k. countingRead L u node (int k)) (isOpen c) n (ur_pending s) (ur_up s) (ur_world s));
             ((h, ok), p1, e1, w1) = readN 2 s;
             s1 = s\<lparr>ur_pending := p1, ur_up := e1, ur_world := w1\<rparr>
         in if \<not> ok then Some (s1\<lparr>ur_upDone := True\<rparr>)
            else
              (let ((payload, ok), p2, e2, w2) = readN (getUint16 h) s1;
                   s2 = s1\<lparr>ur_pending := p2, ur_up := e2, ur_world := w2\<rparr>
               in if \<not> ok then Some (s2\<lparr>ur_upDone := True\<rparr>)
                  else if werr \<or> ur_returned s2 then Some (s2\<lparr>ur_upDone := True\<rparr>)
                  else Some (s2\<lparr>ur_sent := ur_sent s2 @ [payload]\<rparr>))))"

text \<open>A \<open>Write\<close> on the client's connection: \<open>None\<close> writes everything, \<open>Some k\<close> writes \<open>k\<close> bytes and fails; a closed
  connection writes nothing. Whether it succeeded, and the state.\<close>

definition udpWrite :: "('l, 'd) lib \<Rightarrow> uuid \<Rightarrow> string \<Rightarrow> conn \<Rightarrow> byte list \<Rightarrow> nat option \<Rightarrow> ('l, 'd) udp_relay \<Rightarrow> bool \<times> ('l, 'd) udp_relay" where
  "udpWrite L u node c bs res s =
     (if \<not> isOpen c (ur_world s) then (False, s)
      else (let out = (case res of None \<Rightarrow> bs | Some k \<Rightarrow> take k bs)
            in (res = None, s\<lparr>ur_toClient := ur_toClient s @ out,
                             ur_world := countingWrite L u node (int (length out)) (ur_world s)\<rparr>)))"

definition udpBuf :: nat where "udpBuf = 2048"

text \<open>Destination to client: a datagram cut to the buffer, its length, its bytes. With no datagram the read waits.\<close>

definition udpDown :: "('l, 'd) lib \<Rightarrow> uuid \<Rightarrow> string \<Rightarrow> conn \<Rightarrow> nat option \<Rightarrow> nat option \<Rightarrow> ('l, 'd) udp_relay \<Rightarrow> ('l, 'd) udp_relay option" where
  "udpDown L u node c res1 res2 s =
     (if ur_downDone s then None
      else if ur_returned s then Some (s\<lparr>ur_downDone := True\<rparr>)
      else (case ur_down s of
              [] \<Rightarrow> None
            | None # rest \<Rightarrow> Some (s\<lparr>ur_down := rest, ur_downDone := True\<rparr>)
            | Some d # rest \<Rightarrow>
                (let got = take udpBuf d;
                     (ok, s1) = udpWrite L u node c (putUint16 (length got)) res1 (s\<lparr>ur_down := rest\<rparr>)
                 in if \<not> ok then Some (s1\<lparr>ur_downDone := True\<rparr>)
                    else (let (ok, s2) = udpWrite L u node c got res2 s1
                          in Some (if ok then s2 else s2\<lparr>ur_downDone := True\<rparr>)))))"

definition udpReturn :: "uuid \<Rightarrow> conn \<Rightarrow> ('l, 'd) udp_relay \<Rightarrow> ('l, 'd) udp_relay option" where
  "udpReturn u c s =
     (if ur_returned s \<or> \<not> (ur_upDone s \<or> ur_downDone s) then None
      else Some (s\<lparr>ur_returned := True, ur_world := handlerExit (Some u) c (ur_world s)\<rparr>))"

datatype udp_event = UUp bool | UDown "nat option" "nat option" | UReturn | UClose

fun udpStep :: "('l, 'd) lib \<Rightarrow> uuid \<Rightarrow> string \<Rightarrow> conn \<Rightarrow> udp_event \<Rightarrow> ('l, 'd) udp_relay \<Rightarrow> ('l, 'd) udp_relay option" where
  "udpStep L u node c (UUp werr) s = udpUp L u node c werr s"
| "udpStep L u node c (UDown r1 r2) s = udpDown L u node c r1 r2 s"
| "udpStep L u node c UReturn s = udpReturn u c s"
| "udpStep L u node c UClose s = Some (s\<lparr>ur_world := (ur_world s)\<lparr>closed := insert c (closed (ur_world s))\<rparr>\<rparr>)"

abbreviation udp_run :: "('l, 'd) lib \<Rightarrow> uuid \<Rightarrow> string \<Rightarrow> conn \<Rightarrow> ('l, 'd) udp_relay \<Rightarrow> udp_event list \<Rightarrow> ('l, 'd) udp_relay \<Rightarrow> bool" where
  "udp_run L u node c \<equiv> runs (udpStep L u node c)"

section \<open>The uplink\<close>

text \<open>One iteration, as cases: the stream ends inside a frame, a frame cannot be sent, a frame is sent.\<close>

lemma putFrame_getUint16:
  "length h = 2 \<Longrightarrow> length d = getUint16 h \<Longrightarrow> putFrame d = h @ d \<and> length d < 65536"
proof -
  assume a: "length h = 2" "length d = getUint16 h"
  then obtain x y where h: "h = [x, y]" by (auto simp: length_Suc_conv numeral_2_eq_2)
  have y: "unat y < 256" by simp
  have x: "unat x < 256" by simp
  have "(256 * unat x + unat y) div 256 = unat x" using y by simp
  moreover have "(256 :: byte) = 0" by transfer simp
  then have "256 * x = 0" by (metis mult_zero_left)
  then have "word_of_nat (256 * unat x + unat y) = (y :: byte)"
    by simp
  moreover have "256 * unat x + unat y < 65536" using x y by linarith
  ultimately show ?thesis using a by (simp add: putFrame_def putUint16_def h getUint16_def)
qed

lemma udpUp_cases:
  assumes "udpUp L u node c werr s = Some s'"
  obtains (cut) d where "\<not> ur_upDone s" "ur_upDone s'" "ur_sent s' = ur_sent s" "getFrame d = None"
      "d @ ur_pending s' @ inBytes (ur_up s') = ur_pending s @ inBytes (ur_up s)"
      "clean (ur_up s) \<and> isOpen c (ur_world s') \<longrightarrow> ur_pending s' = [] \<and> ur_up s' = []"
  | (lost) "\<not> ur_upDone s" "ur_upDone s'" "ur_sent s' = ur_sent s" "werr \<or> ur_returned s"
  | (sent) d where "\<not> ur_upDone s" "\<not> ur_upDone s'" "ur_sent s' = ur_sent s @ [d]" "length d < 65536"
      "putFrame d @ ur_pending s' @ inBytes (ur_up s') = ur_pending s @ inBytes (ur_up s)"
      "clean (ur_up s) \<and> isOpen c (ur_world s') \<longrightarrow> clean (ur_up s')"
proof -
  let ?rd = "\<lambda>k. countingRead L u node (int k)"
  obtain h ok1 p1 e1 w1 where r1: "readFull ?rd (isOpen c) 2 (ur_pending s) (ur_up s) (ur_world s) = ((h, ok1), p1, e1, w1)"
    by (metis prod.exhaust)
  obtain d ok2 p2 e2 w2 where r2: "readFull ?rd (isOpen c) (getUint16 h) p1 e1 w1 = ((d, ok2), p2, e2, w2)"
    by (metis prod.exhaust)
  note b1 = readFull_bytes [OF r1] and b2 = readFull_bytes [OF r2]
  have nd: "\<not> ur_upDone s" using assms by (simp add: udpUp_def split: if_splits)
  consider (a) "\<not> ok1" | (b) "ok1" "\<not> ok2" | (c) "ok1" "ok2" "werr \<or> ur_returned s" | (d) "ok1" "ok2" "\<not> werr" "\<not> ur_returned s" by blast
  then show thesis
  proof cases
    case a
    then have s': "s' = s\<lparr>ur_pending := p1, ur_up := e1, ur_world := w1, ur_upDone := True\<rparr>"
      using assms nd by (simp add: udpUp_def r1)
    show thesis
    proof (rule cut [of h])
      show "getFrame h = None" using b1 a by (auto simp: getFrame_def)
      show "clean (ur_up s) \<and> isOpen c (ur_world s') \<longrightarrow> ur_pending s' = [] \<and> ur_up s' = []"
        using readFull_exhausted [OF r1] a by (simp add: s')
    qed (use nd b1 in \<open>simp_all add: s'\<close>)
  next
    case b
    then have s': "s' = s\<lparr>ur_pending := p2, ur_up := e2, ur_world := w2, ur_upDone := True\<rparr>"
      using assms nd by (simp add: udpUp_def r1 r2)
    have op: "isOpen c w2 \<longrightarrow> isOpen c w1" using readFull_closed [OF r2] by (auto simp: isOpen_def)
    show thesis
    proof (rule cut [of "h @ d"])
      show "getFrame (h @ d) = None" using b1 b2 b by (auto simp: getFrame_def Let_def)
      show "clean (ur_up s) \<and> isOpen c (ur_world s') \<longrightarrow> ur_pending s' = [] \<and> ur_up s' = []"
        using readFull_exhausted [OF r1] readFull_exhausted [OF r2] b op by (simp add: s')
    qed (use nd b1 b2 in \<open>simp_all add: s'\<close>)
  next
    case c
    then have "s' = s\<lparr>ur_pending := p2, ur_up := e2, ur_world := w2, ur_upDone := True\<rparr>"
      using assms nd by (simp add: udpUp_def r1 r2)
    with nd c show thesis by (intro lost) simp_all
  next
    case d
    then have s': "s' = s\<lparr>ur_pending := p2, ur_up := e2, ur_world := w2, ur_sent := ur_sent s @ [d]\<rparr>"
      using assms nd by (simp add: udpUp_def r1 r2)
    have op: "isOpen c w2 \<longrightarrow> isOpen c w1" using readFull_closed [OF r2] by (auto simp: isOpen_def)
    have len: "length h = 2" "length d = getUint16 h" using b1 b2 d by auto
    note f = putFrame_getUint16 [OF len]
    show thesis
    proof (rule sent [of d])
      show "putFrame d @ ur_pending s' @ inBytes (ur_up s') = ur_pending s @ inBytes (ur_up s)" using f b1 b2 by (simp add: s')
      show "clean (ur_up s) \<and> isOpen c (ur_world s') \<longrightarrow> clean (ur_up s')"
        using readFull_exhausted [OF r1] readFull_exhausted [OF r2] op by (simp add: s')
    qed (use nd f in \<open>simp_all add: s'\<close>)
  qed
qed

text \<open>What was sent, framed, is the beginning of the stream; what follows is unread while the loop runs.\<close>

definition uplink_inv :: "byte list \<Rightarrow> ('l, 'd) udp_relay \<Rightarrow> bool" where
  "uplink_inv stream s \<longleftrightarrow>
     (\<forall>d \<in> set (ur_sent s). length d < 65536) \<and>
     (\<exists>rest. stream = concat (map putFrame (ur_sent s)) @ rest \<and> (\<not> ur_upDone s \<longrightarrow> rest = ur_pending s @ inBytes (ur_up s)))"

text \<open>Without failures the loop only ends where the stream holds no further frame.\<close>

definition uplink_full :: "byte list \<Rightarrow> ('l, 'd) udp_relay \<Rightarrow> bool" where
  "uplink_full stream s \<longleftrightarrow> \<not> ur_returned s \<and>
     (\<exists>rest. stream = concat (map putFrame (ur_sent s)) @ rest \<and> (ur_upDone s \<longrightarrow> getFrame rest = None) \<and>
        (\<not> ur_upDone s \<longrightarrow> rest = ur_pending s @ inBytes (ur_up s) \<and> clean (ur_up s)))"

lemma udpWrite_fields:
  assumes "udpWrite L u node c bs res s = (ok, s')"
  shows "ur_up s' = ur_up s \<and> ur_pending s' = ur_pending s \<and> ur_sent s' = ur_sent s \<and> ur_upDone s' = ur_upDone s \<and>
    ur_down s' = ur_down s \<and> ur_downDone s' = ur_downDone s \<and> ur_returned s' = ur_returned s \<and>
    closed (ur_world s) \<subseteq> closed (ur_world s')"
  using assms by (auto simp: udpWrite_def Let_def split: if_splits intro: closed_grows(2) [THEN subsetD])

lemma udpDown_fields:
  assumes "udpDown L u node c r1 r2 s = Some s'"
  shows "ur_up s' = ur_up s \<and> ur_pending s' = ur_pending s \<and> ur_sent s' = ur_sent s \<and> ur_upDone s' = ur_upDone s \<and>
    ur_returned s' = ur_returned s \<and> closed (ur_world s) \<subseteq> closed (ur_world s')"
proof (cases "ur_returned s \<or> (\<exists>rest. ur_down s = None # rest)")
  case True
  with assms show ?thesis by (auto simp: udpDown_def split: if_splits)
next
  case False
  then obtain d rest where d: "ur_down s = Some d # rest" "\<not> ur_returned s"
    using assms by (auto simp: udpDown_def split: if_splits list.splits option.splits)
  obtain ok1 s1 where w1: "udpWrite L u node c (putUint16 (length (take udpBuf d))) r1 (s\<lparr>ur_down := rest\<rparr>) = (ok1, s1)"
    by (metis prod.exhaust)
  obtain ok2 s2 where w2: "udpWrite L u node c (take udpBuf d) r2 s1 = (ok2, s2)" by (metis prod.exhaust)
  have "s' = s1\<lparr>ur_downDone := True\<rparr> \<or> s' = s2 \<or> s' = s2\<lparr>ur_downDone := True\<rparr>"
    using assms d w1 w2 by (auto simp: udpDown_def Let_def split: if_splits)
  with udpWrite_fields [OF w1] udpWrite_fields [OF w2] show ?thesis by auto
qed

lemma uplink_step:
  assumes "udpStep L u node c e s = Some s'" "uplink_inv stream s"
  shows "uplink_inv stream s'"
proof (cases e)
  case (UUp werr)
  with assms(1) have "udpUp L u node c werr s = Some s'" by simp
  then show ?thesis
  proof (cases rule: udpUp_cases)
    case (cut d)
    with assms(2) show ?thesis by (auto simp: uplink_inv_def)
  next
    case lost
    with assms(2) show ?thesis by (auto simp: uplink_inv_def)
  next
    case (sent d)
    with assms(2) show ?thesis by (auto simp: uplink_inv_def)
  qed
next
  case (UDown r1 r2)
  with assms udpDown_fields show ?thesis unfolding uplink_inv_def by (metis udpStep.simps(2))
next
  case UReturn
  with assms show ?thesis by (auto simp: udpReturn_def uplink_inv_def split: if_splits)
next
  case UClose
  with assms show ?thesis by (auto simp: uplink_inv_def)
qed

interpretation udp_uplink: machine "udpStep L u node c" "uplink_inv stream" "\<lambda>_. True" for L u node c stream
  by unfold_locales (blast intro: uplink_step)

definition udp_full :: "udp_event \<Rightarrow> bool" where
  "udp_full e \<longleftrightarrow> e = UUp False \<or> e = UDown None None"

lemma udpUp_closed: "udpUp L u node c werr s = Some s' \<Longrightarrow> closed (ur_world s) \<subseteq> closed (ur_world s')"
proof -
  assume a: "udpUp L u node c werr s = Some s'"
  let ?rd = "\<lambda>k. countingRead L u node (int k)"
  obtain h ok1 p1 e1 w1 where r1: "readFull ?rd (isOpen c) 2 (ur_pending s) (ur_up s) (ur_world s) = ((h, ok1), p1, e1, w1)"
    by (metis prod.exhaust)
  obtain d ok2 p2 e2 w2 where r2: "readFull ?rd (isOpen c) (getUint16 h) p1 e1 w1 = ((d, ok2), p2, e2, w2)"
    by (metis prod.exhaust)
  have "ur_world s' = w1 \<or> ur_world s' = w2" using a by (auto simp: udpUp_def r1 r2 Let_def split: if_splits)
  with readFull_closed [OF r1] readFull_closed [OF r2] show ?thesis by auto
qed

lemma udpStep_open:
  assumes "udpStep L u node c e s = Some s'" "udp_full e" "isOpen c (ur_world s')"
  shows "isOpen c (ur_world s)"
  using assms udpUp_closed udpDown_fields unfolding udp_full_def isOpen_def
  by (metis subset_iff udpStep.simps(1,2))

lemma uplink_full_step:
  assumes "udpStep L u node c e s = Some s'" "udp_full e" "isOpen c (ur_world s')" "uplink_full stream s"
  shows "uplink_full stream s'"
proof (cases e)
  case (UUp werr)
  with assms(1,2) have u: "udpUp L u node c False s = Some s'" by (simp add: udp_full_def)
  have ret: "ur_returned s' = ur_returned s" "\<not> ur_returned s"
    using u assms(4) by (auto simp: udpUp_def uplink_full_def Let_def split: if_splits prod.splits)
  from u show ?thesis
  proof (cases rule: udpUp_cases)
    case (cut d)
    with assms(3,4) ret have "ur_pending s' = [] \<and> ur_up s' = []" by (auto simp: uplink_full_def)
    with cut assms(4) ret show ?thesis by (auto simp: uplink_full_def inBytes_def)
  next
    case lost
    with ret show ?thesis by simp
  next
    case (sent d)
    with assms(3,4) ret show ?thesis by (auto simp: uplink_full_def)
  qed
next
  case (UDown r1 r2)
  with assms have "udpDown L u node c r1 r2 s = Some s'" by simp
  from udpDown_fields [OF this] assms(4) show ?thesis by (simp add: uplink_full_def)
qed (use assms(2) in \<open>simp_all add: udp_full_def\<close>)

lemma uplink_full_run:
  "udp_run L u node c s es s' \<Longrightarrow> list_all udp_full es \<Longrightarrow> isOpen c (ur_world s') \<Longrightarrow> uplink_full stream s \<Longrightarrow> uplink_full stream s'"
proof (induction rule: runs.induct)
  case (snoc s es s' e s'')
  from snoc.prems(1) have full: "list_all udp_full es" "udp_full e" by simp_all
  have op: "isOpen c (ur_world s')" by (rule udpStep_open [OF snoc.hyps(2) full(2) snoc.prems(2)])
  show ?case by (rule uplink_full_step [OF snoc.hyps(2) full(2) snoc.prems(2) snoc.IH [OF full(1) op snoc.prems(3)]])
qed simp

lemma udpStart_fields:
  "udpStart d up down initial w = Some s \<Longrightarrow> s = \<lparr>ur_world = w, ur_pending = initial, ur_up = up, ur_down = down, ur_sent = [],
     ur_toClient = [], ur_upDone = False, ur_downDone = False, ur_returned = False\<rparr>"
  by (simp add: udpStart_def split: if_splits)

section \<open>The downlink\<close>

text \<open>The datagrams the socket delivers before it fails, and the frames the client should see.\<close>

definition answers :: "byte list option list \<Rightarrow> byte list list" where
  "answers down = map the (takeWhile (\<lambda>x. x \<noteq> None) down)"

definition answerFrames :: "byte list option list \<Rightarrow> byte list" where
  "answerFrames down = concat (map putFrame (map (take udpBuf) (answers down)))"

lemma answers_simps [simp]: "answers [] = []" "answers (None # xs) = []" "answers (Some d # xs) = d # answers xs"
  by (simp_all add: answers_def)

lemma answerFrames_simps [simp]: "answerFrames [] = []" "answerFrames (None # xs) = []"
  "answerFrames (Some d # xs) = putUint16 (length (take udpBuf d)) @ take udpBuf d @ answerFrames xs"
  by (simp_all add: answerFrames_def putFrame_def)

definition downlink_inv :: "byte list \<Rightarrow> ('l, 'd) udp_relay \<Rightarrow> bool" where
  "downlink_inv target s \<longleftrightarrow> (\<exists>rest. target = ur_toClient s @ rest \<and> (\<not> ur_downDone s \<longrightarrow> rest = answerFrames (ur_down s)))"

definition downlink_full :: "byte list \<Rightarrow> ('l, 'd) udp_relay \<Rightarrow> bool" where
  "downlink_full target s \<longleftrightarrow> \<not> ur_returned s \<and>
     target = ur_toClient s @ (if ur_downDone s then [] else answerFrames (ur_down s))"

lemma udpWrite_out:
  assumes "udpWrite L u node c bs res s = (ok, s')"
  obtains out rest where "bs = out @ rest" "ur_toClient s' = ur_toClient s @ out" "ok \<longrightarrow> rest = []"
    "res = None \<and> isOpen c (ur_world s) \<longrightarrow> ok"
proof (cases "isOpen c (ur_world s)")
  case False
  with assms show thesis by (intro that [of "[]" bs]) (auto simp: udpWrite_def)
next
  case open': True
  show thesis
  proof (cases res)
    case None
    with assms open' show thesis by (intro that [of bs "[]"]) (auto simp: udpWrite_def)
  next
    case (Some k)
    with assms open' show thesis by (intro that [of "take k bs" "drop k bs"]) (auto simp: udpWrite_def Let_def)
  qed
qed

text \<open>One iteration, as cases.\<close>

lemma udpDown_cases:
  assumes "udpDown L u node c r1 r2 s = Some s'"
  obtains (stop) "\<not> ur_downDone s" "ur_downDone s'" "ur_toClient s' = ur_toClient s" "ur_returned s \<or> answerFrames (ur_down s) = []"
  | (cut) out rest where "\<not> ur_downDone s" "ur_downDone s'" "ur_toClient s' = ur_toClient s @ out" "answerFrames (ur_down s) = out @ rest"
      "r1 \<noteq> None \<or> r2 \<noteq> None \<or> \<not> isOpen c (ur_world s')"
  | (sent) out where "\<not> ur_downDone s" "\<not> ur_downDone s'" "ur_toClient s' = ur_toClient s @ out"
      "answerFrames (ur_down s) = out @ answerFrames (ur_down s')"
proof (cases "ur_returned s \<or> (\<exists>rest. ur_down s = None # rest)")
  case True
  with assms show thesis by (intro stop) (auto simp: udpDown_def split: if_splits)
next
  case False
  then obtain d rest where d: "ur_down s = Some d # rest" "\<not> ur_returned s" "\<not> ur_downDone s"
    using assms by (auto simp: udpDown_def split: if_splits list.splits option.splits)
  obtain ok1 s1 where w1: "udpWrite L u node c (putUint16 (length (take udpBuf d))) r1 (s\<lparr>ur_down := rest\<rparr>) = (ok1, s1)"
    by (metis prod.exhaust)
  obtain ok2 s2 where w2: "udpWrite L u node c (take udpBuf d) r2 s1 = (ok2, s2)" by (metis prod.exhaust)
  note f1 = udpWrite_fields [OF w1] and f2 = udpWrite_fields [OF w2]
  from udpWrite_out [OF w1] obtain o1 t1 where o1: "putUint16 (length (take udpBuf d)) = o1 @ t1"
    "ur_toClient s1 = ur_toClient s @ o1" "ok1 \<longrightarrow> t1 = []" "r1 = None \<and> isOpen c (ur_world s) \<longrightarrow> ok1" by auto
  from udpWrite_out [OF w2] obtain o2 t2 where o2: "take udpBuf d = o2 @ t2"
    "ur_toClient s2 = ur_toClient s1 @ o2" "ok2 \<longrightarrow> t2 = []" "r2 = None \<and> isOpen c (ur_world s1) \<longrightarrow> ok2" by auto
  have frames: "answerFrames (ur_down s) = (o1 @ t1) @ (o2 @ t2) @ answerFrames rest" using d o1(1) o2(1) by simp
  consider (a) "\<not> ok1" | (b) "ok1" "\<not> ok2" | (c) "ok1" "ok2" by blast
  then show thesis
  proof cases
    case a
    then have s': "s' = s1\<lparr>ur_downDone := True\<rparr>" using assms d w1 by (simp add: udpDown_def Let_def)
    show thesis
    proof (rule cut [of o1 "t1 @ (o2 @ t2) @ answerFrames rest"])
      show "r1 \<noteq> None \<or> r2 \<noteq> None \<or> \<not> isOpen c (ur_world s')" using o1(4) a f1 by (auto simp: s' isOpen_def)
      show "answerFrames (ur_down s) = o1 @ t1 @ (o2 @ t2) @ answerFrames rest" using frames by simp
    qed (use d o1(2) in \<open>simp_all add: s'\<close>)
  next
    case b
    then have s': "s' = s2\<lparr>ur_downDone := True\<rparr>" using assms d w1 w2 by (simp add: udpDown_def Let_def)
    show thesis
    proof (rule cut [of "o1 @ o2" "t2 @ answerFrames rest"])
      show "r1 \<noteq> None \<or> r2 \<noteq> None \<or> \<not> isOpen c (ur_world s')" using o2(4) b f2 by (auto simp: s' isOpen_def)
      show "answerFrames (ur_down s) = (o1 @ o2) @ t2 @ answerFrames rest" using frames o1(3) b by simp
    qed (use d o1(2) o2(2) in \<open>simp_all add: s'\<close>)
  next
    case c
    then have s': "s' = s2" using assms d w1 w2 by (simp add: udpDown_def Let_def)
    show thesis
    proof (rule sent [of "o1 @ o2"])
      have "ur_down s2 = rest" "\<not> ur_downDone s2" using d(3) f1 f2 by simp_all
      then show "answerFrames (ur_down s) = (o1 @ o2) @ answerFrames (ur_down s')" "\<not> ur_downDone s'"
        using frames o1(3) o2(3) c by (simp_all add: s')
    qed (use d o1(2) o2(2) in \<open>simp_all add: s'\<close>)
  qed
qed

lemma udpUp_fields:
  assumes "udpUp L u node c werr s = Some s'"
  shows "ur_toClient s' = ur_toClient s \<and> ur_down s' = ur_down s \<and> ur_downDone s' = ur_downDone s \<and> ur_returned s' = ur_returned s"
  using assms by (auto simp: udpUp_def Let_def split: if_splits prod.splits)

lemma downlink_step:
  assumes "udpStep L u node c e s = Some s'" "downlink_inv target s"
  shows "downlink_inv target s'"
proof (cases e)
  case (UUp werr)
  with assms(1) have "udpUp L u node c werr s = Some s'" by simp
  from udpUp_fields [OF this] assms(2) show ?thesis by (simp add: downlink_inv_def)
next
  case (UDown r1 r2)
  with assms(1) have "udpDown L u node c r1 r2 s = Some s'" by simp
  then show ?thesis
  proof (cases rule: udpDown_cases)
    case stop
    with assms(2) show ?thesis by (auto simp: downlink_inv_def)
  next
    case (cut out rest)
    with assms(2) show ?thesis by (auto simp: downlink_inv_def)
  next
    case (sent out)
    with assms(2) show ?thesis by (auto simp: downlink_inv_def)
  qed
next
  case UReturn
  with assms show ?thesis by (auto simp: udpReturn_def downlink_inv_def split: if_splits)
next
  case UClose
  with assms show ?thesis by (auto simp: downlink_inv_def)
qed

interpretation udp_downlink_machine: machine "udpStep L u node c" "downlink_inv target" "\<lambda>_. True" for L u node c target
  by unfold_locales (blast intro: downlink_step)

lemma downlink_full_step:
  assumes "udpStep L u node c e s = Some s'" "udp_full e" "isOpen c (ur_world s')" "downlink_full target s"
  shows "downlink_full target s'"
proof (cases e)
  case (UUp werr)
  with assms(1) have "udpUp L u node c werr s = Some s'" by simp
  from udpUp_fields [OF this] assms(4) show ?thesis by (simp add: downlink_full_def)
next
  case (UDown r1 r2)
  with assms(1,2) have d: "udpDown L u node c None None s = Some s'" by (simp add: udp_full_def)
  have ret: "\<not> ur_returned s" "\<not> ur_returned s'" using udpDown_fields [OF d] assms(4) by (simp_all add: downlink_full_def)
  from d show ?thesis
  proof (cases rule: udpDown_cases)
    case stop
    with ret assms(4) show ?thesis by (auto simp: downlink_full_def)
  next
    case (cut out rest)
    with assms(3) show ?thesis by simp
  next
    case (sent out)
    with ret assms(4) show ?thesis by (auto simp: downlink_full_def)
  qed
qed (use assms(2) in \<open>simp_all add: udp_full_def\<close>)

lemma downlink_full_run:
  "udp_run L u node c s es s' \<Longrightarrow> list_all udp_full es \<Longrightarrow> isOpen c (ur_world s') \<Longrightarrow> downlink_full target s \<Longrightarrow> downlink_full target s'"
proof (induction rule: runs.induct)
  case (snoc s es s' e s'')
  from snoc.prems(1) have full: "list_all udp_full es" "udp_full e" by simp_all
  have op: "isOpen c (ur_world s')" by (rule udpStep_open [OF snoc.hyps(2) full(2) snoc.prems(2)])
  show ?case by (rule downlink_full_step [OF snoc.hyps(2) full(2) snoc.prems(2) snoc.IH [OF full(1) op snoc.prems(3)]])
qed simp

lemma decode_answers:
  "read_all getFrame (Suc (length (answers down))) (answerFrames down) = (map (take udpBuf) (answers down), [])"
proof -
  have "list_all (\<lambda>d. length d < 65536) (map (take udpBuf) (answers down))" by (auto simp: list_all_iff udpBuf_def)
  from udp_frames.read_all_put [OF this, of "[]" "Suc (length (answers down))"] show ?thesis
    unfolding answerFrames_def append_Nil2 by (simp add: getFrame_def del: read_all.simps)
qed

lemma map_take_id: "map (take n) xs = xs \<longleftrightarrow> (\<forall>x \<in> set xs. length x \<le> n)"
  by (induction xs) auto

section \<open>The transfers of the abstract relay\<close>

text \<open>The two loops of \<open>handleUDP\<close> are a list of transfers of the plain kind, too: every read of the client's
  connection counts and is shaped, every write to it, and nothing else.\<close>

lemma readFull_transfers:
  assumes "readFull (\<lambda>k. countingRead L u node (int k)) alive n pending evs w = ((d, ok), pending', evs', w')"
  shows "\<exists>ns. w' = fold (\<lambda>k. countingRead L u node (int k)) ns w \<and> sum_list ns + length (inBytes evs') = length (inBytes evs)"
proof (cases "n \<le> length pending")
  case True
  with assms show ?thesis by (intro exI [of _ "[]"]) (simp add: readFull_def)
next
  case False
  obtain d1 ok1 rest w1 where r: "readLoop (\<lambda>k. countingRead L u node (int k)) alive (n - length pending) (n - length pending) evs [] w
      = ((d1, ok1), rest, w1)"
    by (metis prod.exhaust)
  from readLoop_accounts [OF r] obtain ns where "w1 = fold (\<lambda>k. countingRead L u node (int k)) ns w" "sum_list ns = length d1" by auto
  moreover have "length d1 + length (inBytes rest) = length (inBytes evs)"
    using readLoop_bytes [OF r] by (metis append_Nil length_append)
  moreover from assms False have "w' = w1" "evs' = rest" by (simp_all add: readFull_def readAtLeast_def r)
  ultimately show ?thesis by metis
qed

lemma readFull_dead:
  assumes "readFull onRead alive n pending evs w = ((d, ok), pending', evs', w')" "\<not> alive w"
  shows "w' = w \<and> evs' = evs"
  using assms by (cases evs) (auto simp: readFull_def readAtLeast_def split: if_splits)

definition udp_transfers :: "('l, 'd) lib \<Rightarrow> uuid \<Rightarrow> string \<Rightarrow> conn \<Rightarrow> relay \<Rightarrow> ('l, 'd) world \<Rightarrow> nat \<Rightarrow> ('l, 'd) udp_relay \<Rightarrow> bool" where
  "udp_transfers L u node c r w amount s \<longleftrightarrow>
     (\<exists>ts. ur_world s = (if ur_returned s then handlerExit (Some u) c (relayRun L u node r ts w) else relayRun L u node r ts w) \<and>
        fromClient ts + length (inBytes (ur_up s)) = amount \<and> toClient ts = length (ur_toClient s))"

lemma relayRun_reads: "plain r \<Longrightarrow> fold (\<lambda>k. countingRead L u node (int k)) ns (relayRun L u node r ts w) = relayRun L u node r (ts @ map FromClient ns) w"
proof (induction ns arbitrary: ts)
  case (Cons n ns)
  show ?case using Cons.IH [OF Cons.prems, of "ts @ [FromClient n]"] by (simp add: plain_step [OF Cons.prems])
qed simp

lemma reads_sums [simp]: "fromClient (map FromClient ns) = sum_list ns" "toClient (map FromClient ns) = 0"
  by (induction ns) simp_all

lemma udp_transfers_read:
  assumes "plain r" "udp_transfers L u node c r w amount s"
    and "readFull (\<lambda>k. countingRead L u node (int k)) (isOpen c) n (ur_pending s) (ur_up s) (ur_world s) = ((d, ok), p, e, v)"
  shows "udp_transfers L u node c r w amount (s\<lparr>ur_pending := p, ur_up := e, ur_world := v\<rparr>)"
proof (cases "ur_returned s")
  case True
  with assms(2) have "\<not> isOpen c (ur_world s)" by (auto simp: udp_transfers_def)
  from readFull_dead [OF assms(3) this] assms(2) show ?thesis by (simp add: udp_transfers_def)
next
  case False
  with assms(2) obtain ts where ts: "ur_world s = relayRun L u node r ts w"
    "fromClient ts + length (inBytes (ur_up s)) = amount" "toClient ts = length (ur_toClient s)" by (auto simp: udp_transfers_def)
  from readFull_transfers [OF assms(3)] obtain ns where ns: "v = fold (\<lambda>k. countingRead L u node (int k)) ns (ur_world s)"
    "sum_list ns + length (inBytes e) = length (inBytes (ur_up s))" by blast
  have "v = relayRun L u node r (ts @ map FromClient ns) w" by (simp only: ns(1) ts(1) relayRun_reads [OF assms(1)])
  with ts ns(2) False show ?thesis unfolding udp_transfers_def by (intro exI [of _ "ts @ map FromClient ns"]) simp
qed

lemma udp_transfers_ended:
  "udp_transfers L u node c r w amount s \<Longrightarrow> udp_transfers L u node c r w amount (s\<lparr>ur_upDone := True\<rparr>)"
  "udp_transfers L u node c r w amount s \<Longrightarrow> udp_transfers L u node c r w amount (s\<lparr>ur_downDone := True\<rparr>)"
  "udp_transfers L u node c r w amount s \<Longrightarrow> udp_transfers L u node c r w amount (s\<lparr>ur_sent := ds\<rparr>)"
  "udp_transfers L u node c r w amount s \<Longrightarrow> udp_transfers L u node c r w amount (s\<lparr>ur_down := rest\<rparr>)"
  by (simp_all add: udp_transfers_def)

lemma udp_transfers_up:
  assumes "udpUp L u node c werr s = Some s'" "plain r" "udp_transfers L u node c r w amount s"
  shows "udp_transfers L u node c r w amount s'"
proof -
  let ?rd = "\<lambda>k. countingRead L u node (int k)"
  obtain h ok1 p1 e1 w1 where r1: "readFull ?rd (isOpen c) 2 (ur_pending s) (ur_up s) (ur_world s) = ((h, ok1), p1, e1, w1)"
    by (metis prod.exhaust)
  let ?s1 = "s\<lparr>ur_pending := p1, ur_up := e1, ur_world := w1\<rparr>"
  obtain d ok2 p2 e2 w2 where r2: "readFull ?rd (isOpen c) (getUint16 h) (ur_pending ?s1) (ur_up ?s1) (ur_world ?s1) = ((d, ok2), p2, e2, w2)"
    by (metis prod.exhaust)
  note i1 = udp_transfers_read [OF assms(2,3) r1]
  note i2 = udp_transfers_read [OF assms(2) i1 r2]
  let ?s2 = "?s1\<lparr>ur_pending := p2, ur_up := e2, ur_world := w2\<rparr>"
  have "s' = ?s1\<lparr>ur_upDone := True\<rparr> \<or> s' = ?s2\<lparr>ur_upDone := True\<rparr> \<or> s' = ?s2\<lparr>ur_sent := ur_sent s @ [d]\<rparr>"
    using assms(1) r1 r2 by (auto simp: udpUp_def Let_def split: if_splits)
  then show ?thesis using udp_transfers_ended(1) [OF i1] udp_transfers_ended(1) [OF i2] udp_transfers_ended(3) [OF i2] by metis
qed

lemma udp_transfers_write:
  assumes "udpWrite L u node c bs res s = (ok, s')" "plain r" "udp_transfers L u node c r w amount s"
  shows "udp_transfers L u node c r w amount s'"
proof (cases "isOpen c (ur_world s)")
  case False
  with assms show ?thesis by (simp add: udpWrite_def)
next
  case True
  with assms(3) have ret: "\<not> ur_returned s" by (auto simp: udp_transfers_def)
  with assms(3) obtain ts where ts: "ur_world s = relayRun L u node r ts w"
    "fromClient ts + length (inBytes (ur_up s)) = amount" "toClient ts = length (ur_toClient s)" by (auto simp: udp_transfers_def)
  define out where "out = (case res of None \<Rightarrow> bs | Some k \<Rightarrow> take k bs)"
  have "s' = s\<lparr>ur_toClient := ur_toClient s @ out, ur_world := countingWrite L u node (int (length out)) (ur_world s)\<rparr>"
    using assms(1) True by (auto simp: udpWrite_def out_def Let_def)
  then show ?thesis using ts ret unfolding udp_transfers_def
    by (intro exI [of _ "ts @ [ToClient (length out)]"]) (simp add: plain_step [OF assms(2)])
qed

lemma udp_transfers_down:
  assumes "udpDown L u node c r1 r2 s = Some s'" "plain r" "udp_transfers L u node c r w amount s"
  shows "udp_transfers L u node c r w amount s'"
proof (cases "ur_returned s \<or> (\<exists>rest. ur_down s = None # rest)")
  case True
  then have "s' = s\<lparr>ur_downDone := True\<rparr> \<or> (\<exists>rest. s' = s\<lparr>ur_down := rest\<rparr>\<lparr>ur_downDone := True\<rparr>)"
    using assms(1) by (auto simp: udpDown_def split: if_splits)
  then show ?thesis using udp_transfers_ended(2) udp_transfers_ended(4) assms(3) by metis
next
  case False
  then obtain d rest where d: "ur_down s = Some d # rest" "\<not> ur_returned s"
    using assms by (auto simp: udpDown_def split: if_splits list.splits option.splits)
  obtain ok1 s1 where w1: "udpWrite L u node c (putUint16 (length (take udpBuf d))) r1 (s\<lparr>ur_down := rest\<rparr>) = (ok1, s1)"
    by (metis prod.exhaust)
  obtain ok2 s2 where w2: "udpWrite L u node c (take udpBuf d) r2 s1 = (ok2, s2)" by (metis prod.exhaust)
  note i1 = udp_transfers_write [OF w1 assms(2) udp_transfers_ended(4) [OF assms(3)]]
  note i2 = udp_transfers_write [OF w2 assms(2) i1]
  have "s' = s1\<lparr>ur_downDone := True\<rparr> \<or> s' = s2 \<or> s' = s2\<lparr>ur_downDone := True\<rparr>"
    using assms d w1 w2 by (auto simp: udpDown_def Let_def split: if_splits)
  then show ?thesis using udp_transfers_ended(2) [OF i1] udp_transfers_ended(2) [OF i2] i2 by metis
qed

lemma udp_transfers_step:
  assumes "udpStep L u node c e s = Some s'" "e \<noteq> UClose" "udp_transfers L u node c (UdpRelay a i) w amount s"
  shows "udp_transfers L u node c (UdpRelay a i) w amount s'"
proof (cases e)
  case UReturn
  with assms show ?thesis by (auto simp: udpReturn_def udp_transfers_def split: if_splits)
qed (use assms in \<open>simp_all add: udp_transfers_up [OF _ plain_tcp(2) assms(3)] udp_transfers_down [OF _ plain_tcp(2) assms(3)]\<close>)

interpretation udp_refines: machine "udpStep L u node c" "udp_transfers L u node c (UdpRelay a i) w amount" "\<lambda>e. e \<noteq> UClose"
  for L u node c a i w amount
  by unfold_locales (rule udp_transfers_step)

text \<open>When \<open>handleUDP\<close> has returned, the server is what the abstract relay leaves after some list of transfers and the
  clean-up; the counters grew by exactly the bytes read from the client and written to her, lengths included.\<close>

lemma udp_relay_refines:
  assumes "udpStart dialOk up down initial w = Some s" "udp_run L u node c s es s'"
    and "UClose \<notin> set es" "ur_returned s'" "wf_world w"
  shows "(\<exists>ts. ur_world s' = handlerExit (Some u) c (relayRun L u node (UdpRelay a initial) ts w) \<and>
      fromClient ts + length (inBytes (ur_up s')) = length (inBytes up) \<and> toClient ts = length (ur_toClient s')) \<and>
    counter (ur_world s') (u, node) =
      (wrap64 (fst (counter w (u, node)) + int (length (inBytes up) - length (inBytes (ur_up s')))),
       wrap64 (snd (counter w (u, node)) + int (length (ur_toClient s'))))"
proof -
  have "udp_transfers L u node c (UdpRelay a initial) w (length (inBytes up)) s"
    using udpStart_fields [OF assms(1)] unfolding udp_transfers_def by (intro exI [of _ "[]"]) simp
  from udp_refines.run_inv [OF assms(2) _ this] assms(3,4)
  obtain ts where ts: "ur_world s' = handlerExit (Some u) c (relayRun L u node (UdpRelay a initial) ts w)"
    "fromClient ts + length (inBytes (ur_up s')) = length (inBytes up)" "toClient ts = length (ur_toClient s')"
    by (auto simp: udp_transfers_def list_all_iff)
  have "fromClient ts = length (inBytes up) - length (inBytes (ur_up s'))" using ts(2) by simp
  with ts plainRun_counter [OF plain_tcp(2) wf_counters [OF assms(5), of "(u, node)"], of L a initial ts] show ?thesis by auto
qed

section \<open>Properties\<close>

text \<open>C19: The UDP uplink. Whatever way the client's bytes are cut into reads, and whatever else happens, the datagrams
  sent to the destination are a prefix of the datagrams the client framed; without failures and with the
  connection open all of them are sent before the loop ends, an incomplete frame at the end is dropped.\<close>

theorem udp_uplink_roundtrip:
  assumes "udpStart dialOk up down initial w = Some s" "udp_run L u node c s es s'"
    and stream: "initial @ inBytes up = concat (map putFrame ds) @ tail" "list_all (\<lambda>d. length d < 65536) ds" "getFrame tail = None"
  shows "prefix (ur_sent s') ds \<and>
    (clean up \<and> list_all udp_full es \<and> isOpen c (ur_world s') \<and> ur_upDone s' \<longrightarrow> ur_sent s' = ds)"
proof -
  note start = udpStart_fields [OF assms(1)]
  have "uplink_inv (initial @ inBytes up) s" by (simp add: start uplink_inv_def)
  with udp_uplink.run_inv [OF assms(2)] have "uplink_inv (initial @ inBytes up) s'" by (simp add: list_all_iff)
  then obtain rest where inv: "\<forall>d \<in> set (ur_sent s'). length d < 65536"
    "concat (map putFrame ds) @ tail = concat (map putFrame (ur_sent s')) @ rest"
    by (auto simp: uplink_inv_def stream(1))
  have "\<exists>ds'. ds = ur_sent s' @ ds' \<and> concat (map putFrame ds') @ tail = rest"
    by (rule udp_frames.stream_prefix [OF stream(2) _ stream(3) inv(2)]) (use inv(1) in \<open>simp add: list_all_iff\<close>)
  then obtain ds' where ds': "ds = ur_sent s' @ ds'" "concat (map putFrame ds') @ tail = rest" by blast
  moreover have "getFrame rest = None" if "clean up \<and> list_all udp_full es \<and> isOpen c (ur_world s') \<and> ur_upDone s'"
  proof -
    have "uplink_full (initial @ inBytes up) s" using that by (simp add: start uplink_full_def)
    with uplink_full_run [OF assms(2)] that have "uplink_full (initial @ inBytes up) s'" by blast
    with that inv(2) stream(1) show ?thesis by (auto simp: uplink_full_def)
  qed
  ultimately show ?thesis using udp_frames.no_value_empty [OF stream(2) [unfolded ds'(1)], of tail] by (auto simp: prefix_def)
qed

text \<open>C20: The UDP downlink. What the client receives is a prefix of the frames of the answers cut to 2048 bytes; when
  all are delivered the client decodes exactly the cut answers, so an answer longer than the buffer is silently
  truncated.\<close>

theorem udp_downlink_truncates:
  assumes "udpStart dialOk up down initial w = Some s" "udp_run L u node c s es s'"
  shows "prefix (ur_toClient s') (answerFrames down) \<and>
    (list_all udp_full es \<and> isOpen c (ur_world s') \<and> (ur_downDone s' \<or> ur_down s' = []) \<longrightarrow>
       (let got = fst (read_all getFrame (Suc (length (answers down))) (ur_toClient s'))
        in got = map (take 2048) (answers down) \<and> (got = answers down \<longleftrightarrow> (\<forall>d \<in> set (answers down). length d \<le> 2048))))"
proof -
  note start = udpStart_fields [OF assms(1)]
  have "downlink_inv (answerFrames down) s" by (simp add: start downlink_inv_def)
  with udp_downlink_machine.run_inv [OF assms(2)] have "downlink_inv (answerFrames down) s'" by (simp add: list_all_iff)
  moreover have "ur_toClient s' = answerFrames down"
    if "list_all udp_full es \<and> isOpen c (ur_world s') \<and> (ur_downDone s' \<or> ur_down s' = [])"
  proof -
    have "downlink_full (answerFrames down) s" by (simp add: start downlink_full_def)
    with downlink_full_run [OF assms(2)] that have "downlink_full (answerFrames down) s'" by blast
    with that show ?thesis by (auto simp: downlink_full_def split: if_splits)
  qed
  moreover have "fst (read_all getFrame (Suc (length (answers down))) (answerFrames down)) = map (take 2048) (answers down)"
    by (simp only: decode_answers fst_conv udpBuf_def)
  ultimately show ?thesis
    by (simp add: downlink_inv_def prefix_def map_take_id Let_def del: read_all.simps) blast
qed

section \<open>Witnesses\<close>

text \<open>One datagram up, split between the bytes of the header's read and the next two, then half of another; one
  answer down, longer than the buffer.\<close>

definition exUp :: netin where
  "exUp = [([1, 9, 0], False), ([2, 5], False)]"

definition exDown :: "byte list option list" where
  "exDown = [Some (replicate 3000 7)]"

definition exUdp :: "((nat \<times> int \<times> int), unit) udp_relay" where
  "exUdp = \<lparr>ur_world = exServer, ur_pending = [0], ur_up = exUp, ur_down = exDown, ur_sent = [], ur_toClient = [],
     ur_upDone = False, ur_downDone = False, ur_returned = False\<rparr>"

lemma exUdp_start: "udpStart True exUp exDown [0] exServer = Some exUdp"
  by (simp add: udpStart_def exUdp_def)

lemma exOpen_read [simp]: "isOpen c (fold (\<lambda>k. countingRead exLib exUUID [] (int k)) ns exServer)"
proof -
  have "closed (fold (\<lambda>k. countingRead exLib exUUID [] (int k)) ns w) = closed w" if "userQuota w exUUID = None" for w :: ex_world
    using that
  proof (induction ns arbitrary: w)
    case (Cons n ns)
    then show ?case using counting_uncapped(1) [OF Cons.prems, of exLib "[]" "int n"] by simp
  qed simp
  from this [of exServer] show ?thesis by (simp add: isOpen_def)
qed

definition exUdpEnd :: "((nat \<times> int \<times> int), unit) udp_relay" where
  "exUdpEnd = exUdp\<lparr>ur_world := fold (\<lambda>k. countingRead exLib exUUID [] (int k)) [1, 1, 1, 1, 1] exServer,
     ur_pending := [], ur_up := [], ur_sent := [[9]], ur_upDone := True\<rparr>"

lemma exUdp_run: "udp_run exLib exUUID [] 7 exUdp [UUp False, UUp False] exUdpEnd"
proof (rule runs_exec)
  have o1: "isOpen 7 (countingRead exLib exUUID [] 1 exServer)" using exOpen_read [of 7 "[1]"] by simp
  have o2: "isOpen 7 (countingRead exLib exUUID [] 1 (countingRead exLib exUUID [] 1 exServer))" using exOpen_read [of 7 "[1, 1]"] by simp
  have o3: "isOpen 7 (countingRead exLib exUUID [] 1 (countingRead exLib exUUID [] 1 (countingRead exLib exUUID [] 1 exServer)))"
    using exOpen_read [of 7 "[1, 1, 1]"] by simp
  have o4: "isOpen 7 (countingRead exLib exUUID [] 1 (countingRead exLib exUUID [] 1 (countingRead exLib exUUID [] 1 (countingRead exLib exUUID [] 1 exServer))))"
    using exOpen_read [of 7 "[1, 1, 1, 1]"] by simp
  show "fold (\<lambda>e x. Option.bind x (udpStep exLib exUUID [] 7 e)) [UUp False, UUp False] (Some exUdp) = Some exUdpEnd"
    by (simp add: exUdp_def exUdpEnd_def exUp_def udpUp_def readFull_def readAtLeast_def getUint16_def Let_def o1 o2 o3 o4)
qed

theorem udp_uplink_roundtrip_witness: "ur_sent exUdpEnd = [[9]]"
proof -
  have "[0] @ inBytes exUp = concat (map putFrame [[9]]) @ [0, 2, 5]" "list_all (\<lambda>d. length d < 65536) [[9 :: byte]]" "getFrame [0, 2, 5] = None"
    by (simp_all add: exUp_def inBytes_def putFrame_def putUint16_def getFrame_def getUint16_def)
  note a = udp_uplink_roundtrip [OF exUdp_start exUdp_run this]
  have "clean exUp \<and> list_all udp_full [UUp False, UUp False] \<and> isOpen 7 (ur_world exUdpEnd) \<and> ur_upDone exUdpEnd"
    using exOpen_read [of 7 "[1, 1, 1, 1, 1]"] by (simp add: clean_def exUp_def udp_full_def exUdpEnd_def)
  with a show ?thesis by blast
qed

theorem udp_downlink_truncates_witness:
  "\<exists>s'. udp_run exLib exUUID [] 7 exUdp [UDown None None] s' \<and>
     fst (read_all getFrame (Suc (length (answers exDown))) (ur_toClient s')) \<noteq> answers exDown"
proof -
  have op: "isOpen 7 (countingWrite exLib exUUID [] n exServer)" for n by (simp add: isOpen_def counting_uncapped)
  have op2: "isOpen 7 (countingWrite exLib exUUID [] m (countingWrite exLib exUUID [] n exServer))" for m n
    by (simp add: isOpen_def counting_uncapped)
  let ?d = "replicate 2048 (7 :: byte)"
  let ?s = "exUdp\<lparr>ur_down := [], ur_toClient := putUint16 2048 @ ?d,
    ur_world := countingWrite exLib exUUID [] 2048 (countingWrite exLib exUUID [] 2 exServer)\<rparr>"
  have "udpDown exLib exUUID [] 7 None None exUdp = Some ?s"
    by (simp add: udpDown_def exUdp_def exDown_def udpWrite_def udpBuf_def op op2 take_replicate putUint16_def Let_def)
  then have run: "udp_run exLib exUUID [] 7 exUdp [UDown None None] ?s" by (intro runs_one) simp
  have "list_all udp_full [UDown None None] \<and> isOpen 7 (ur_world ?s) \<and> (ur_downDone ?s \<or> ur_down ?s = [])"
    by (simp add: udp_full_def op2)
  with udp_downlink_truncates [OF exUdp_start run] have
    "fst (read_all getFrame (Suc (length (answers exDown))) (ur_toClient ?s)) = answers exDown \<longleftrightarrow> (\<forall>d \<in> set (answers exDown). length d \<le> 2048)"
    unfolding Let_def by blast
  then have "fst (read_all getFrame (Suc (length (answers exDown))) (ur_toClient ?s)) \<noteq> answers exDown"
    by (simp add: exDown_def del: read_all.simps)
  with run show ?thesis by blast
qed

end
