(* ===== verification/Server_Run.thy ===== *)
theory Server_Run
  imports Accounting Config_Update
begin

text \<open>
  The goroutines that share one \<open>Server\<close>, interleaved: the connection handlers, the hot reloads and the
  reporting. The mutex makes each locked method one step, but a handler takes it several times: it looks the user up,
  checks her quota, and registers the connection in separate critical sections (\<open>handler.go\<close>, \<open>handleConnection\<close>).
  \<open>Admit\<close> is the first two, \<open>Enrol\<close> the registration; \<open>sy_admitted\<close> holds the handlers in between. \<open>Serve\<close> is the
  handler that is not interrupted there.
\<close>

section \<open>Events and steps\<close>

record ('l, 'd) system =
  sy_world :: "('l, 'd) world"
  sy_admitted :: "(uuid \<times> conn) set"

datatype server_event =
    Admit uuid conn
  | Enrol uuid conn string nat
  | Serve uuid conn string nat
  | Count uuid string int int
  | Leave uuid conn
  | NewUsers "uuid list" "user list"
  | NewConfig config
  | NewUsage "uuid list" "user_usage list"
  | Report "traffic_key list"

definition admitted :: "uuid \<Rightarrow> ('l, 'd) world \<Rightarrow> bool" where
  "admitted u w \<longleftrightarrow> users w u \<noteq> None \<and> \<not> userOverQuota u w"

definition enrol :: "uuid \<Rightarrow> conn \<Rightarrow> string \<Rightarrow> nat \<Rightarrow> ('l, 'd) world \<Rightarrow> ('l, 'd) world" where
  "enrol u c node n w = addTraffic u node (int n) 0 (addConn u c w)"

fun serverStep :: "('l, 'd) lib \<Rightarrow> server_event \<Rightarrow> ('l, 'd) system \<Rightarrow> ('l, 'd) system option" where
  "serverStep L (Admit u c) s =
     (if admitted u (sy_world s) then Some (s\<lparr>sy_admitted := insert (u, c) (sy_admitted s)\<rparr>) else None)"
| "serverStep L (Enrol u c node n) s =
     (if (u, c) \<notin> sy_admitted s then None
      else Some (s\<lparr>sy_world := enrol u c node n (sy_world s), sy_admitted := sy_admitted s - {(u, c)}\<rparr>))"
| "serverStep L (Serve u c node n) s =
     (if admitted u (sy_world s) then Some (s\<lparr>sy_world := enrol u c node n (sy_world s)\<rparr>) else None)"
| "serverStep L (Count u node up down) s = Some (s\<lparr>sy_world := addTraffic u node up down (sy_world s)\<rparr>)"
| "serverStep L (Leave u c) s = Some (s\<lparr>sy_world := handlerExit (Some u) c (sy_world s)\<rparr>)"
| "serverStep L (NewUsers ord us) s =
     (if enumerates ord (users (sy_world s)) then Some (s\<lparr>sy_world := UpdateUsers L ord us (sy_world s)\<rparr>) else None)"
| "serverStep L (NewConfig cfg) s = Some (s\<lparr>sy_world := UpdateConfig L cfg (sy_world s)\<rparr>)"
| "serverStep L (NewUsage ord us) s =
     (if enumerates ord (users (sy_world s)) then Some (s\<lparr>sy_world := ApplyUsage ord us (sy_world s)\<rparr>) else None)"
| "serverStep L (Report ord) s =
     (if enumerates ord (userTraffic (sy_world s)) then Some (s\<lparr>sy_world := snd (GetAndResetTraffic ord (sy_world s))\<rparr>) else None)"

abbreviation server_run :: "('l, 'd) lib \<Rightarrow> ('l, 'd) system \<Rightarrow> server_event list \<Rightarrow> ('l, 'd) system \<Rightarrow> bool" where
  "server_run L \<equiv> runs (serverStep L)"

definition fresh :: "('l, 'd) world \<Rightarrow> ('l, 'd) system" where
  "fresh w = \<lparr>sy_world = w, sy_admitted = {}\<rparr>"

section \<open>Every operation keeps the state well-formed\<close>

text \<open>The type of the state: well-formed maps, and the per-user buckets and quota states are those of current users.\<close>

definition server_inv :: "('l, 'd) world \<Rightarrow> bool" where
  "server_inv w \<longleftrightarrow> wf_world w \<and> dom (userULimiters w) = dom (users w) \<and> dom (userDLimiters w) = dom (users w) \<and>
     dom (userQuota w) \<subseteq> dom (users w)"

lemma accrue_dom: "dom (userQuota (accrueQuotaLocked u n w)) = dom (userQuota w)"
  by (auto simp: accrueQuotaLocked_def Let_def split: option.splits if_splits)

lemma accrue_wf: "wf_world w \<Longrightarrow> wf_world (accrueQuotaLocked u n w)"
  by (simp add: accrueQuotaLocked_def Let_def wf_world_def split: option.split)

lemma addTraffic_wf: "wf_world w \<Longrightarrow> wf_world (addTraffic u node up down w)"
proof -
  assume wf: "wf_world w"
  define w' where "w' = w\<lparr>userTraffic := (userTraffic w)((u, node) \<mapsto> (ensureStat (u, node) w)
    \<lparr>s_up := wrap64 (s_up (ensureStat (u, node) w) + up), s_down := wrap64 (s_down (ensureStat (u, node) w) + down)\<rparr>)\<rparr>"
  have "wf_world w'" using wf by (simp add: wf_world_def w'_def)
  then show ?thesis unfolding addTraffic_def Let_def w'_def [symmetric] by (simp add: accrue_wf)
qed

lemma addConn_wf: "wf_world w \<Longrightarrow> wf_world (addConn u c w)"
  by (simp add: wf_world_def addConn_def)

lemma removeConn_wf: "wf_world w \<Longrightarrow> wf_world (removeConn u c w)"
  by (simp add: wf_world_def removeConn_def Let_def split: option.split)

lemma ApplyUsage_wf: "wf_world w \<Longrightarrow> wf_world (ApplyUsage ord us w)"
  using newQuotas_origin by (fastforce simp: wf_world_def ApplyUsage_def newQuotaState_def is_i64_def)

lemma UpdateUsers_wf:
  assumes "wf_world w" "enumerates ord (users w)"
  shows "wf_world (UpdateUsers L ord us w)"
proof -
  have "length u = 16" if "userMap us u = Some r" for u r using userMap_origin [OF that] ParseUUID_length by blast
  with assms(1) show ?thesis by (auto simp: wf_world_def UpdateUsers_users UpdateUsers_conns [OF assms(2)] split: if_splits)
qed

lemma UpdateUsers_doms:
  "dom (userULimiters (UpdateUsers L ord us w)) = dom (userMap us)" "dom (userDLimiters (UpdateUsers L ord us w)) = dom (userMap us)"
proof -
  have "userULimiters (UpdateUsers L ord us w) u = None \<longleftrightarrow> userMap us u = None" for u
    using UpdateUsers_limiters [of us u L ord w] by (cases "userMap us u") auto
  then show "dom (userULimiters (UpdateUsers L ord us w)) = dom (userMap us)" by (simp add: dom_def)
  have "userDLimiters (UpdateUsers L ord us w) u = None \<longleftrightarrow> userMap us u = None" for u
    using UpdateUsers_limiters [of us u L ord w] by (cases "userMap us u") auto
  then show "dom (userDLimiters (UpdateUsers L ord us w)) = dom (userMap us)" by (simp add: dom_def)
qed

lemma server_inv_cong:
  assumes "server_inv w" "wf_world w \<Longrightarrow> wf_world w'" "users w' = users w" "userULimiters w' = userULimiters w" "userDLimiters w' = userDLimiters w"
    and "dom (userQuota w') \<subseteq> dom (userQuota w)"
  shows "server_inv w'"
  using assms unfolding server_inv_def by (metis subset_trans)

lemma limiters_frame [frames, simp]:
  "userULimiters (addConn u c w) = userULimiters w" "userDLimiters (addConn u c w) = userDLimiters w"
  "userULimiters (removeConn u c w) = userULimiters w" "userDLimiters (removeConn u c w) = userDLimiters w"
  "userULimiters (ApplyUsage ord us w) = userULimiters w" "userDLimiters (ApplyUsage ord us w) = userDLimiters w"
  by (simp_all add: addConn_def removeConn_def ApplyUsage_def Let_def split: option.split)

lemma addTraffic_inv: "server_inv w \<Longrightarrow> server_inv (addTraffic u node up down w)"
  by (erule server_inv_cong) (simp_all add: addTraffic_wf addTraffic_quota accrue_dom)

lemma addConn_inv: "server_inv w \<Longrightarrow> server_inv (addConn u c w)"
  by (erule server_inv_cong) (simp_all add: addConn_wf)

lemma handlerExit_inv: "server_inv w \<Longrightarrow> server_inv (handlerExit (Some u) c w)"
proof -
  assume inv: "server_inv w"
  then have "server_inv (removeConn u c w)" by (rule server_inv_cong) (simp_all add: removeConn_wf)
  then show ?thesis by (simp add: handlerExit_eq server_inv_def wf_world_def)
qed

lemma UpdateUsers_inv: "server_inv w \<Longrightarrow> enumerates ord (users w) \<Longrightarrow> server_inv (UpdateUsers L ord us w)"
proof -
  assume a: "server_inv w" "enumerates ord (users w)"
  have "dom (userQuota (UpdateUsers L ord us w)) \<subseteq> dom (userMap us)"
  proof
    fix u assume "u \<in> dom (userQuota (UpdateUsers L ord us w))"
    then have "\<not> (users w u \<noteq> None \<and> userMap us u = None)" "u \<in> dom (userQuota w)"
      by (auto simp: UpdateUsers_conns [OF a(2)] split: if_splits)
    moreover from this(2) a(1) have "users w u \<noteq> None" by (auto simp: server_inv_def)
    ultimately show "u \<in> dom (userMap us)" by (simp add: dom_def)
  qed
  with a show ?thesis by (simp add: server_inv_def UpdateUsers_wf UpdateUsers_doms UpdateUsers_users)
qed

lemma UpdateConfig_inv: "server_inv w \<Longrightarrow> server_inv (UpdateConfig L cfg w)"
  by (erule server_inv_cong) (simp_all add: UpdateConfig_wf)

lemma ApplyUsage_inv: "server_inv w \<Longrightarrow> server_inv (ApplyUsage ord us w)"
proof -
  assume inv: "server_inv w"
  have "dom (userQuota (ApplyUsage ord us w)) \<subseteq> dom (users w)"
    by (auto simp: ApplyUsage_def dest!: newQuotas_origin emailUUIDs_origin)
  with inv show ?thesis by (simp add: server_inv_def ApplyUsage_wf)
qed

lemma Report_inv: "server_inv w \<Longrightarrow> enumerates ord (userTraffic w) \<Longrightarrow> server_inv (snd (GetAndResetTraffic ord w))"
  by (erule server_inv_cong) (auto simp: GetAndResetTraffic_eq wf_world_def statAfter_def is_i64_def split: option.splits if_splits)

lemma serverStep_inv: "serverStep L e s = Some s' \<Longrightarrow> server_inv (sy_world s) \<Longrightarrow> server_inv (sy_world s')"
  by (cases e)
    (auto simp: enrol_def addTraffic_inv addConn_inv handlerExit_inv UpdateUsers_inv UpdateConfig_inv ApplyUsage_inv Report_inv split: if_splits)

interpretation server_types: machine "serverStep L" "\<lambda>s. server_inv (sy_world s)" "\<lambda>_. True" for L
  by unfold_locales (rule serverStep_inv)

section \<open>Registration\<close>

text \<open>Without the gap between the gates and the registration, every registered connection belongs to a current user.\<close>

definition conns_current :: "('l, 'd) system \<Rightarrow> bool" where
  "conns_current s \<longleftrightarrow> (\<forall>u c. c \<in> connsOf (sy_world s) u \<longrightarrow> users (sy_world s) u \<noteq> None)"

fun whole_event :: "server_event \<Rightarrow> bool" where
  "whole_event (Admit u c) = False"
| "whole_event (Enrol u c node n) = False"
| "whole_event _ = True"

lemma connsOf_cong: "userConns w' = userConns w \<Longrightarrow> connsOf w' = connsOf w"
  by (simp add: connsOf_def fun_eq_iff)

lemma handlerExit_conns: "connsOf (handlerExit (Some u) c w) v = (if v = u then connsOf w u - {c} else connsOf w v)"
  using connsOf_cong [of "handlerExit (Some u) c w" "removeConn u c w"] by (simp add: handlerExit_eq connsOf_removeConn)

lemma handlerExit_users: "users (handlerExit reg c w) = users w"
  by (simp add: handlerExit_eq Let_def split: option.split)

lemma handlerExit_rest: "userQuota (handlerExit (Some u) c w) = userQuota w" "closed (handlerExit (Some u) c w) = insert c (closed w)"
  by (simp_all add: handlerExit_eq)

lemma report_frame: "enumerates ord (userTraffic w) \<Longrightarrow> users (snd (GetAndResetTraffic ord w)) = users w \<and>
   userConns (snd (GetAndResetTraffic ord w)) = userConns w \<and> closed (snd (GetAndResetTraffic ord w)) = closed w \<and>
   userQuota (snd (GetAndResetTraffic ord w)) = userQuota w"
  by (simp add: GetAndResetTraffic_eq)

lemma UpdateUsers_connsOf:
  "enumerates ord (users w) \<Longrightarrow>
   connsOf (UpdateUsers L ord us w) u = (if users w u \<noteq> None \<and> userMap us u = None then {} else connsOf w u)"
  by (simp add: connsOf_def UpdateUsers_conns)

lemma conns_current_mono:
  assumes "conns_current s" "\<And>v. connsOf (sy_world s') v \<subseteq> connsOf (sy_world s) v" "users (sy_world s') = users (sy_world s)"
  shows "conns_current s'"
  using assms unfolding conns_current_def by (metis subsetD)

lemma whole_step:
  assumes "serverStep L e s = Some s'" "whole_event e" "conns_current s"
  shows "conns_current s'"
proof (cases e)
  case (Serve u c node n)
  with assms(1) have "users (sy_world s) u \<noteq> None" and s': "s' = s\<lparr>sy_world := enrol u c node n (sy_world s)\<rparr>"
    by (auto simp: admitted_def split: if_splits)
  moreover have "c' \<in> connsOf (sy_world s') v \<Longrightarrow> v = u \<or> c' \<in> connsOf (sy_world s) v" for c' v
    by (simp add: s' enrol_def connsOf_addConn split: if_splits)
  moreover have "users (sy_world s') = users (sy_world s)" by (simp add: s' enrol_def)
  ultimately show ?thesis using assms(3) unfolding conns_current_def by metis
next
  case (NewUsers ord us)
  with assms(1) have en: "enumerates ord (users (sy_world s))" and s': "s' = s\<lparr>sy_world := UpdateUsers L ord us (sy_world s)\<rparr>"
    by (auto split: if_splits)
  show ?thesis unfolding conns_current_def
  proof (intro allI impI)
    fix u c assume "c \<in> connsOf (sy_world s') u"
    then have "c \<in> connsOf (sy_world s) u" "\<not> (users (sy_world s) u \<noteq> None \<and> userMap us u = None)"
      by (auto simp: s' UpdateUsers_connsOf [OF en] split: if_splits)
    with assms(3) have "userMap us u \<noteq> None" unfolding conns_current_def by metis
    then show "users (sy_world s') u \<noteq> None" by (simp add: s' UpdateUsers_users)
  qed
next
  case (Report ord)
  with assms(1) report_frame [of ord "sy_world s"] show ?thesis
    by (intro conns_current_mono [OF assms(3)]) (auto simp: connsOf_def split: if_splits)
next
  case (NewConfig cfg)
  with assms(1) show ?thesis by (intro conns_current_mono [OF assms(3)]) (auto simp: connsOf_def)
next
  case (Leave u c)
  with assms(1) show ?thesis by (intro conns_current_mono [OF assms(3)]) (auto simp: handlerExit_conns handlerExit_users split: if_splits)
next
  case (Count u node up down)
  with assms(1) show ?thesis by (intro conns_current_mono [OF assms(3)]) auto
next
  case (NewUsage ord us)
  with assms(1) show ?thesis by (intro conns_current_mono [OF assms(3)]) (auto split: if_splits)
qed (use assms(2) in simp_all)

interpretation whole_registration: machine "serverStep L" conns_current whole_event for L
  by unfold_locales (rule whole_step)

text \<open>With the gap a connection can be registered for a user who is gone: no later reload, snapshot or traffic
  closes it.\<close>

definition stranded :: "uuid \<Rightarrow> conn \<Rightarrow> ('l, 'd) system \<Rightarrow> bool" where
  "stranded u c s \<longleftrightarrow> users (sy_world s) u = None \<and> userQuota (sy_world s) u = None \<and> c \<in> connsOf (sy_world s) u \<and>
     c \<notin> closed (sy_world s) \<and> (\<forall>v. v \<noteq> u \<longrightarrow> c \<notin> connsOf (sy_world s) v)"

text \<open>The events other than the end of this connection's own handler and the return of its user.\<close>

fun elsewhere :: "uuid \<Rightarrow> conn \<Rightarrow> server_event \<Rightarrow> bool" where
  "elsewhere u c (Enrol v c' node n) = (c' \<noteq> c)"
| "elsewhere u c (Serve v c' node n) = (c' \<noteq> c)"
| "elsewhere u c (Leave v c') = (c' \<noteq> c)"
| "elsewhere u c (NewUsers ord us) = (userMap us u = None)"
| "elsewhere u c _ = True"

lemma addTraffic_stranded:
  assumes "c \<notin> closed w" "\<forall>v. v \<noteq> u \<longrightarrow> c \<notin> connsOf w v" "userQuota w u = None"
  shows "c \<notin> closed (addTraffic v node up down w) \<and> userQuota (addTraffic v node up down w) u = None"
  using assms accrue_closed(2) [of v "wrap64 (up + down)" w]
  by (cases "v = u") (auto simp: addTraffic_quota accrue_None accrue_other)

lemma stranded_step:
  assumes "serverStep L e s = Some s'" "elsewhere u c e" "stranded u c s"
  shows "stranded u c s'"
proof (cases e)
  case (Count v node up down)
  with assms addTraffic_stranded [of c "sy_world s" u v node up down] show ?thesis by (auto simp: stranded_def)
next
  case (Enrol v c' node n)
  with assms addTraffic_stranded [of c "addConn v c' (sy_world s)" u v node "int n" 0] show ?thesis
    by (auto simp: stranded_def enrol_def connsOf_addConn split: if_splits)
next
  case (Serve v c' node n)
  with assms addTraffic_stranded [of c "addConn v c' (sy_world s)" u v node "int n" 0] show ?thesis
    by (auto simp: stranded_def enrol_def connsOf_addConn split: if_splits)
next
  case (Leave v c')
  with assms show ?thesis by (auto simp: stranded_def handlerExit_conns handlerExit_users handlerExit_rest split: if_splits)
next
  case (NewUsers ord us)
  have "c \<notin> connsOf (sy_world s) x" if "users (sy_world s) x \<noteq> None" for x
    using assms(3) that by (cases "x = u") (simp_all add: stranded_def)
  with NewUsers assms show ?thesis
    by (auto simp: stranded_def UpdateUsers_connsOf UpdateUsers_users UpdateUsers_conns split: if_splits)
next
  case (NewUsage ord us)
  have "newQuotas (emailUUIDs ord (users (sy_world s))) us u = None"
    using assms(3) newQuotas_origin [of "emailUUIDs ord (users (sy_world s))" us u] emailUUIDs_origin [of ord "users (sy_world s)" _ u]
    by (cases "newQuotas (emailUUIDs ord (users (sy_world s))) us u") (fastforce simp: stranded_def)+
  with NewUsage assms show ?thesis
    by (auto simp: stranded_def ApplyUsage_def connsOf_def split: if_splits)
next
  case (Report ord)
  with assms report_frame [of ord "sy_world s"] show ?thesis
    by (auto simp: stranded_def connsOf_def split: if_splits)
next
  case (NewConfig cfg)
  with assms show ?thesis by (auto simp: stranded_def connsOf_def)
qed (use assms in \<open>auto simp: stranded_def split: if_splits\<close>)

interpretation stranding: machine "serverStep L" "stranded u c" "elsewhere u c" for L u c
  by unfold_locales (rule stranded_step)

section \<open>Properties\<close>

text \<open>C6: The type of the server's state. Whatever the goroutines do and in whatever order (handlers admitting,
  registering, counting and leaving, hot reloads of users and configuration, usage snapshots, reports), the state
  stays well-formed: 16-byte keys, 64-bit counters, no empty connection sets; and rate buckets and quota states exist
  for current users only, the buckets for every one of them.\<close>

theorem server_state_typed:
  assumes "server_run L (fresh NewServer) es s"
  shows "wf_world (sy_world s) \<and> dom (userULimiters (sy_world s)) = dom (users (sy_world s)) \<and>
    dom (userDLimiters (sy_world s)) = dom (users (sy_world s)) \<and> dom (userQuota (sy_world s)) \<subseteq> dom (users (sy_world s))"
proof -
  have "server_inv (sy_world (fresh NewServer))" by (simp add: server_inv_def fresh_def NewServer_wf) (simp add: NewServer_def)
  with server_types.run_inv [OF assms] show ?thesis by (simp add: server_inv_def list_all_iff)
qed

text \<open>C8: If no reload comes between a handler's look-up and its registration, every registered connection belongs
  to a current user, so removing a user leaves no connection of hers behind.\<close>

theorem registered_are_current:
  assumes "server_run L (fresh NewServer) es s" "list_all whole_event es" "c \<in> connsOf (sy_world s) u"
  shows "users (sy_world s) u \<noteq> None"
proof -
  have "conns_current (fresh NewServer)" by (simp add: conns_current_def fresh_def connsOf_def) (simp add: NewServer_def)
  with whole_registration.run_inv [OF assms(1,2)] assms(3) show ?thesis by (auto simp: conns_current_def)
qed

text \<open>C7: If a reload removes the user just between a handler's look-up and its registration, the connection is
  registered for a user who no longer exists and stays open: until its own handler ends or the user returns, no
  reload, snapshot, traffic or report closes it.\<close>

theorem removed_user_keeps_connection:
  assumes "server_inv (sy_world s)" "admitted u (sy_world s)" "c \<notin> closed (sy_world s)" "\<forall>v. c \<notin> connsOf (sy_world s) v"
    and "enumerates ord (users (sy_world s))" "userMap us u = None"
  shows "\<exists>s'. server_run L s [Admit u c, NewUsers ord us, Enrol u c node n] s' \<and> users (sy_world s') u = None \<and>
    (\<forall>es s''. server_run L s' es s'' \<and> list_all (elsewhere u c) es \<longrightarrow>
       c \<notin> closed (sy_world s'') \<and> c \<in> connsOf (sy_world s'') u \<and> users (sy_world s'') u = None)"
proof -
  let ?w = "UpdateUsers L ord us (sy_world s)"
  define s' where "s' = s\<lparr>sy_world := enrol u c node n ?w, sy_admitted := insert (u, c) (sy_admitted s) - {(u, c)}\<rparr>"
  have run: "server_run L s [Admit u c, NewUsers ord us, Enrol u c node n] s'"
    using assms(2,5) by (intro runs_exec) (simp add: s'_def)
  have w: "users ?w u = None" "userQuota ?w u = None" "c \<notin> closed ?w" "\<forall>v. c \<notin> connsOf ?w v"
    using assms(2-6) by (auto simp: UpdateUsers_users UpdateUsers_conns UpdateUsers_connsOf admitted_def)
  have "stranded u c s'"
    using w addTraffic_stranded [of c "addConn u c ?w" u u node "int n" 0]
    by (simp add: stranded_def s'_def enrol_def connsOf_addConn)
  with run show ?thesis
    using stranding.run_inv [of L s' _ _ u c] by (intro exI [of _ s']) (auto simp: stranded_def)
qed

section \<open>Witnesses\<close>

definition exMember :: user where
  "exMember = \<lparr>u_ID = formatUUID (replicate 16 1), u_Email = ''e'', u_Level = 0, u_ExpireAt = 0, u_SpeedLimitUpBps = 0, u_SpeedLimitDownBps = 0\<rparr>"

abbreviation exKey :: uuid where "exKey \<equiv> replicate 16 1"

lemma exMember_map: "userMap [exMember] = [exKey \<mapsto> exMember]"
proof -
  have "ParseUUID (formatUUID exKey) = Inr exKey" by (rule ParseUUID_hexEncode) (simp_all add: removeAllChar_formatUUID)
  then show ?thesis by (simp add: userMap_def exMember_def)
qed

definition exStarted :: "((nat \<times> int \<times> int), unit) system" where
  "exStarted = fresh (UpdateUsers exLib [] [exMember] exNew)"

lemma exStarted_run: "server_run exLib (fresh NewServer) [NewUsers [] [exMember]] exStarted"
  by (rule runs_one) (simp add: fresh_def exStarted_def enumerates_def NewServer_def)

lemma exStarted_users: "users (sy_world exStarted) = [exKey \<mapsto> exMember]"
  by (simp add: exStarted_def fresh_def UpdateUsers_users exMember_map)

lemma exEnum: "enumerates [] (users exNew)" by (simp add: enumerates_def NewServer_def)

lemma exStarted_rest: "connsOf (sy_world exStarted) u = {}" "closed (sy_world exStarted) = {}" "userQuota (sy_world exStarted) u = None"
proof -
  have n: "users exNew = Map.empty" "userConns exNew = Map.empty" "closed exNew = {}" "userQuota exNew = Map.empty" by (simp_all add: NewServer_def)
  show "connsOf (sy_world exStarted) u = {}" "closed (sy_world exStarted) = {}" "userQuota (sy_world exStarted) u = None"
    by (simp_all add: exStarted_def fresh_def UpdateUsers_conns [OF exEnum] UpdateUsers_connsOf [OF exEnum] connsOf_def n)
qed

theorem server_state_typed_witness: "exKey \<in> dom (userULimiters (sy_world exStarted))"
  using server_state_typed [OF exStarted_run] by (simp add: exStarted_users)

theorem registered_are_current_witness:
  "\<exists>s. server_run exLib (fresh NewServer) ([NewUsers [] [exMember]] @ [Serve exKey 7 [] 40]) s \<and> users (sy_world s) exKey \<noteq> None"
proof -
  let ?s = "exStarted\<lparr>sy_world := enrol exKey 7 [] 40 (sy_world exStarted)\<rparr>"
  have "serverStep exLib (Serve exKey 7 [] 40) exStarted = Some ?s"
    by (simp add: admitted_def exStarted_users userOverQuota_def userOverQuotaLocked_def exStarted_rest)
  with exStarted_run have run: "server_run exLib (fresh NewServer) ([NewUsers [] [exMember]] @ [Serve exKey 7 [] 40]) ?s" by (rule runs.snoc)
  have "users (sy_world ?s) exKey \<noteq> None"
    by (rule registered_are_current [OF run, where c = 7]) (simp_all add: enrol_def connsOf_addConn)
  with run show ?thesis by blast
qed

theorem removed_user_keeps_connection_witness:
  "\<exists>s'. server_run exLib exStarted [Admit exKey 7, NewUsers [exKey] [], Enrol exKey 7 [] 40] s' \<and> users (sy_world s') exKey = None \<and>
    (\<forall>es s''. server_run exLib s' es s'' \<and> list_all (elsewhere exKey 7) es \<longrightarrow>
       7 \<notin> closed (sy_world s'') \<and> 7 \<in> connsOf (sy_world s'') exKey \<and> users (sy_world s'') exKey = None)"
proof (rule removed_user_keeps_connection)
  have "server_inv (sy_world (fresh (NewServer :: ex_world)))" by (simp add: server_inv_def fresh_def NewServer_wf) (simp add: NewServer_def)
  with server_types.run_inv [OF exStarted_run] show "server_inv (sy_world exStarted)" by simp
  show "admitted exKey (sy_world exStarted)"
    by (simp add: admitted_def exStarted_users userOverQuota_def userOverQuotaLocked_def exStarted_rest)
  show "enumerates [exKey] (users (sy_world exStarted))" by (simp add: enumerates_def exStarted_users)
qed (simp_all add: exStarted_rest userMap_def)

end
