(* ===== verification/Vision_Relay.thy ===== *)
theory Vision_Relay
  imports Tcp_Relay Server_Run
begin

text \<open>
  \<open>handleTCPVision\<close> of \<open>proxy/vless/vision.go\<close>. The Vision reader and writer are xray-core's: the chunks of payload
  the reader finds in the client's bytes (without the padding) are an argument, and so are the sizes in which
  xray-core's buffered writer passes a chunk to the rate-limited destination. The relay reads a chunk, counts it
  (\<open>accountReader\<close>), and writes it; in the other direction it reads through the rate-limited destination, counts,
  and hands the chunk to the Vision writer. As in \<open>handleTCP\<close> the handler waits for the first direction to end. The
  steps refine the list of transfers \<open>handleConnection\<close> is stated over, which gives the accounting.
\<close>

section \<open>The state and the set-up\<close>

record ('l, 'd) vision_relay =
  vr_world :: "('l, 'd) world"
  vr_up :: "byte list list"
  vr_down :: "byte list list"
  vr_toDest :: "byte list"
  vr_toClient :: "byte list"
  vr_upDone :: bool
  vr_downDone :: bool
  vr_returned :: bool

datatype vision_failure = VisionSetup vision_error | VisionDial

text \<open>\<open>uncover\<close> is the Vision reader: the payload chunks found in the initial data followed by the rest of the
  client's bytes.\<close>

definition visionStart :: "bool \<times> bool \<Rightarrow> conn_kind \<Rightarrow> bool \<Rightarrow> (byte list \<Rightarrow> byte list list) \<Rightarrow> byte list \<Rightarrow> byte list \<Rightarrow> byte list list
    \<Rightarrow> ('l, 'd) world \<Rightarrow> vision_failure + ('l, 'd) vision_relay" where
  "visionStart buffers kind dialOk uncover initial wire down w =
     (case setupVisionConn (fst buffers) (snd buffers) kind of
        Some e \<Rightarrow> Inl (VisionSetup e)
      | None \<Rightarrow>
          if \<not> dialOk then Inl VisionDial
          else Inr \<lparr>vr_world = w, vr_up = uncover (initial @ wire), vr_down = down, vr_toDest = [], vr_toClient = [],
                    vr_upDone = False, vr_downDone = False, vr_returned = False\<rparr>)"

section \<open>The steps\<close>

text \<open>\<open>held\<close>: the read is served from what the reader already holds (the initial data), so that a closed connection does
  not make it fail; \<open>ks\<close>: the bytes each \<open>Write\<close> on the destination took; a chunk that is not written completely, or \<open>werr\<close>, ends the
  copy.\<close>

definition visionUp :: "('l, 'd) lib \<Rightarrow> uuid \<Rightarrow> string \<Rightarrow> conn \<Rightarrow> bool \<Rightarrow> nat list \<Rightarrow> bool \<Rightarrow> ('l, 'd) vision_relay \<Rightarrow> ('l, 'd) vision_relay option" where
  "visionUp L u node c held ks werr s =
     (if vr_upDone s then None
      else if vr_returned s \<or> \<not> held \<and> \<not> isOpen c (vr_world s) then Some (s\<lparr>vr_upDone := True\<rparr>)
      else (case vr_up s of
              [] \<Rightarrow> Some (s\<lparr>vr_upDone := True\<rparr>)
            | mb # rest \<Rightarrow>
                if sum_list ks > length mb then None
                else
                  (let s1 = s\<lparr>vr_up := rest, vr_world := accountChunk (\<lambda>n. addTraffic u node n 0) mb (vr_world s)\<rparr>;
                       s2 = s1\<lparr>vr_toDest := vr_toDest s1 @ take (sum_list ks) mb,
                               vr_world := fold (\<lambda>k. limitedWrite L u (int k)) ks (vr_world s1)\<rparr>
                   in if werr \<or> sum_list ks < length mb then Some (s2\<lparr>vr_upDone := True\<rparr>) else Some s2)))"

definition visionDown :: "('l, 'd) lib \<Rightarrow> uuid \<Rightarrow> string \<Rightarrow> conn \<Rightarrow> bool \<Rightarrow> ('l, 'd) vision_relay \<Rightarrow> ('l, 'd) vision_relay option" where
  "visionDown L u node c werr s =
     (if vr_downDone s then None
      else if vr_returned s then Some (s\<lparr>vr_downDone := True\<rparr>)
      else (case vr_down s of
              [] \<Rightarrow> Some (s\<lparr>vr_downDone := True\<rparr>)
            | mb # rest \<Rightarrow>
                (let s1 = s\<lparr>vr_down := rest,
                       vr_world := accountChunk (\<lambda>n. addTraffic u node 0 n) mb (limitedRead L u (int (length mb)) (vr_world s))\<rparr>
                 in if werr \<or> \<not> isOpen c (vr_world s1) then Some (s1\<lparr>vr_downDone := True\<rparr>)
                    else Some (s1\<lparr>vr_toClient := vr_toClient s1 @ mb\<rparr>))))"

definition visionReturn :: "uuid \<Rightarrow> conn \<Rightarrow> ('l, 'd) vision_relay \<Rightarrow> ('l, 'd) vision_relay option" where
  "visionReturn u c s =
     (if vr_returned s \<or> \<not> (vr_upDone s \<or> vr_downDone s) then None
      else Some (s\<lparr>vr_returned := True, vr_world := handlerExit (Some u) c (vr_world s)\<rparr>))"

datatype vision_event = VUp bool "nat list" bool | VDown bool | VReturn | VClose

fun visionStep :: "('l, 'd) lib \<Rightarrow> uuid \<Rightarrow> string \<Rightarrow> conn \<Rightarrow> vision_event \<Rightarrow> ('l, 'd) vision_relay \<Rightarrow> ('l, 'd) vision_relay option" where
  "visionStep L u node c (VUp held ks werr) s = visionUp L u node c held ks werr s"
| "visionStep L u node c (VDown werr) s = visionDown L u node c werr s"
| "visionStep L u node c VReturn s = visionReturn u c s"
| "visionStep L u node c VClose s = Some (s\<lparr>vr_world := (vr_world s)\<lparr>closed := insert c (closed (vr_world s))\<rparr>\<rparr>)"

abbreviation vision_run :: "('l, 'd) lib \<Rightarrow> uuid \<Rightarrow> string \<Rightarrow> conn \<Rightarrow> ('l, 'd) vision_relay \<Rightarrow> vision_event list \<Rightarrow> ('l, 'd) vision_relay \<Rightarrow> bool" where
  "vision_run L u node c \<equiv> runs (visionStep L u node c)"

lemma visionStart_cases:
  "visionStart buffers kind dialOk uncover initial wire down w = Inr s \<longleftrightarrow>
   setupVisionConn (fst buffers) (snd buffers) kind = None \<and> dialOk \<and>
   s = \<lparr>vr_world = w, vr_up = uncover (initial @ wire), vr_down = down, vr_toDest = [], vr_toClient = [],
     vr_upDone = False, vr_downDone = False, vr_returned = False\<rparr>"
  by (auto simp: visionStart_def split: option.splits)

section \<open>The abstract Vision relay\<close>

lemma limited_counter [simp]: "counter (limitedRead L u n w) = counter w" "counter (limitedWrite L u n w) = counter w"
  by (simp_all add: limitedRead_def limitedWrite_def)

text \<open>What a list of transfers on the Vision path does to the user's counters: the chunks read on either side count.\<close>

lemma visionRun_counter:
  assumes "is_i64 (fst (counter w (u, node)))" "is_i64 (snd (counter w (u, node)))"
  shows "counter (relayRun L u node (VisionRelay a i) ts w) (u, node) =
     (wrap64 (fst (counter w (u, node)) + int (fromClient ts)), wrap64 (snd (counter w (u, node)) + int (fromDest ts)))"
proof (induction ts rule: rev_induct)
  case Nil
  then show ?case using assms by (cases "counter w (u, node)") (simp add: wrap64_id)
next
  case (snoc t ts)
  then show ?case by (cases t) (simp_all add: addTraffic_counter Let_def add.assoc)
qed

lemma relayRun_append: "relayRun L u node r (ts @ ts') w = relayRun L u node r ts' (relayRun L u node r ts w)"
  by (simp add: relayRun_def)

lemma relayRun_writes: "relayRun L u node (VisionRelay a i) (map ToDest ks) w = fold (\<lambda>k. limitedWrite L u (int k)) ks w"
  by (induction ks arbitrary: w) (simp_all add: relayRun_def)

lemma writes_sums [simp]: "fromClient (map ToDest ks) = 0" "fromDest (map ToDest ks) = 0" "toDest (map ToDest ks) = sum_list ks"
  "toClient (map ToDest ks) = 0"
  by (induction ks) simp_all

lemma chunk_transfer:
  "relayRun L u node (VisionRelay a i) [FromClient (length mb)] w = accountChunk (\<lambda>n. addTraffic u node n 0) mb w"
  "relayRun L u node (VisionRelay a i) [FromDest (length mb)] w =
     accountChunk (\<lambda>n. addTraffic u node 0 n) mb (limitedRead L u (int (length mb)) w)"
  by (simp_all add: relayRun_def accountChunk_def Let_def)

section \<open>The refinement\<close>

text \<open>The state of the relay against a list of transfers: \<open>xs\<close> and \<open>ys\<close> are the chunks read so far on either side.\<close>

definition vision_at :: "('l, 'd) lib \<Rightarrow> uuid \<Rightarrow> string \<Rightarrow> relay \<Rightarrow> ('l, 'd) world \<Rightarrow> byte list list \<Rightarrow> byte list list
    \<Rightarrow> ('l, 'd) vision_relay \<Rightarrow> ('l, 'd) world \<Rightarrow> transfer list \<Rightarrow> byte list list \<Rightarrow> byte list list \<Rightarrow> bool" where
  "vision_at L u node r w ups downs s v ts xs ys \<longleftrightarrow>
     v = relayRun L u node r ts w \<and> ups = xs @ vr_up s \<and> downs = ys @ vr_down s \<and>
     fromClient ts = length (concat xs) \<and> toDest ts = length (vr_toDest s) \<and> fromDest ts = length (concat ys) \<and> toClient ts = 0 \<and>
     prefix (vr_toDest s) (concat xs) \<and> (\<not> vr_upDone s \<longrightarrow> vr_toDest s = concat xs) \<and>
     prefix (vr_toClient s) (concat ys) \<and> (\<not> vr_downDone s \<longrightarrow> vr_toClient s = concat ys)"

definition vision_inv :: "('l, 'd) lib \<Rightarrow> uuid \<Rightarrow> string \<Rightarrow> conn \<Rightarrow> relay \<Rightarrow> ('l, 'd) world \<Rightarrow> byte list list \<Rightarrow> byte list list
    \<Rightarrow> ('l, 'd) vision_relay \<Rightarrow> bool" where
  "vision_inv L u node c r w ups downs s \<longleftrightarrow>
     (\<exists>v ts xs ys. vr_world s = (if vr_returned s then handlerExit (Some u) c v else v) \<and> vision_at L u node r w ups downs s v ts xs ys)"

lemma vision_inv_intro:
  "vision_at L u node r w ups downs s (vr_world s) ts xs ys \<Longrightarrow> \<not> vr_returned s \<Longrightarrow> vision_inv L u node c r w ups downs s"
  unfolding vision_inv_def by (intro exI [of _ "vr_world s"] exI [of _ ts] exI [of _ xs] exI [of _ ys]) simp

lemma vision_inv_same:
  assumes "vision_inv L u node c r w ups downs s"
    and "vr_world s' = (if vr_returned s' \<and> \<not> vr_returned s then handlerExit (Some u) c (vr_world s) else vr_world s)" "vr_returned s \<longrightarrow> vr_returned s'"
    and "vr_up s' = vr_up s" "vr_down s' = vr_down s" "vr_toDest s' = vr_toDest s" "vr_toClient s' = vr_toClient s"
    and "vr_upDone s \<longrightarrow> vr_upDone s'" "vr_downDone s \<longrightarrow> vr_downDone s'"
  shows "vision_inv L u node c r w ups downs s'"
proof -
  obtain v ts xs ys where v: "vr_world s = (if vr_returned s then handlerExit (Some u) c v else v)" "vision_at L u node r w ups downs s v ts xs ys"
    using assms(1) unfolding vision_inv_def by blast
  have "vr_world s' = (if vr_returned s' then handlerExit (Some u) c v else v)" using v(1) assms(2,3) by (simp split: if_splits)
  moreover have "vision_at L u node r w ups downs s' v ts xs ys" using v(2) assms(4-) by (auto simp: vision_at_def)
  ultimately show ?thesis unfolding vision_inv_def by blast
qed

lemma vision_inv_ended:
  assumes "vision_inv L u node c r w ups downs s"
  shows "vision_inv L u node c r w ups downs (s\<lparr>vr_upDone := True\<rparr>)" "vision_inv L u node c r w ups downs (s\<lparr>vr_downDone := True\<rparr>)"
  by (rule vision_inv_same [OF assms]; simp)+

lemma visionUp_inv:
  assumes step: "visionUp L u node c held ks werr s = Some s'" and inv: "vision_inv L u node c (VisionRelay a i) w ups downs s"
  shows "vision_inv L u node c (VisionRelay a i) w ups downs s'"
proof (cases "\<not> vr_returned s \<and> (held \<or> isOpen c (vr_world s)) \<and> vr_up s \<noteq> []")
  case False
  with step have "s' = s\<lparr>vr_upDone := True\<rparr>" by (auto simp: visionUp_def split: if_splits list.splits)
  with vision_inv_ended(1) [OF inv] show ?thesis by simp
next
  case True
  then have ret: "\<not> vr_returned s" by blast
  obtain mb rest where mb: "vr_up s = mb # rest" using True by (cases "vr_up s") auto
  have nd: "\<not> vr_upDone s" "sum_list ks \<le> length mb" using step True mb by (auto simp: visionUp_def split: if_splits)
  obtain ts xs ys where at: "vision_at L u node (VisionRelay a i) w ups downs s (vr_world s) ts xs ys"
    using inv ret by (auto simp: vision_inv_def)
  define v where "v = fold (\<lambda>k. limitedWrite L u (int k)) ks (accountChunk (\<lambda>n. addTraffic u node n 0) mb (vr_world s))"
  let ?s2 = "s\<lparr>vr_up := rest, vr_toDest := vr_toDest s @ take (sum_list ks) mb, vr_world := v\<rparr>"
  have s': "s' = (if werr \<or> sum_list ks < length mb then ?s2\<lparr>vr_upDone := True\<rparr> else ?s2)"
    using step True nd mb by (auto simp: visionUp_def Let_def v_def split: if_splits)
  have world: "v = relayRun L u node (VisionRelay a i) ((ts @ [FromClient (length mb)]) @ map ToDest ks) w"
    using at by (simp only: v_def relayRun_append relayRun_writes chunk_transfer vision_at_def)
  have pre: "prefix (concat xs @ take (sum_list ks) mb) (concat xs @ mb)" by (simp add: take_is_prefix)
  have all: "take (sum_list ks) mb = mb" if "\<not> sum_list ks < length mb" using that by simp
  have at': "vision_at L u node (VisionRelay a i) w ups downs s' v ((ts @ [FromClient (length mb)]) @ map ToDest ks) (xs @ [mb]) ys"
    unfolding vision_at_def
    using at nd mb pre all by (auto simp: s' world vision_at_def simp del: relayRun_snoc)
  have "vr_world s' = v" "\<not> vr_returned s'" using ret by (simp_all add: s')
  with at' show ?thesis using vision_inv_intro [of L u node "VisionRelay a i" w ups downs s'] by metis
qed

lemma visionDown_inv:
  assumes step: "visionDown L u node c werr s = Some s'" and inv: "vision_inv L u node c (VisionRelay a i) w ups downs s"
  shows "vision_inv L u node c (VisionRelay a i) w ups downs s'"
proof (cases "vr_returned s \<or> vr_down s = []")
  case True
  with step have "s' = s\<lparr>vr_downDone := True\<rparr>" by (auto simp: visionDown_def split: if_splits)
  with vision_inv_ended(2) [OF inv] show ?thesis by simp
next
  case False
  then obtain mb rest where mb: "vr_down s = mb # rest" by (cases "vr_down s") auto
  have nd: "\<not> vr_downDone s" using step by (auto simp: visionDown_def split: if_splits)
  obtain ts xs ys where at: "vision_at L u node (VisionRelay a i) w ups downs s (vr_world s) ts xs ys"
    using inv False by (auto simp: vision_inv_def)
  define v where "v = accountChunk (\<lambda>n. addTraffic u node 0 n) mb (limitedRead L u (int (length mb)) (vr_world s))"
  let ?s1 = "s\<lparr>vr_down := rest, vr_world := v\<rparr>"
  have s': "s' = (if werr \<or> \<not> isOpen c v then ?s1\<lparr>vr_downDone := True\<rparr> else ?s1\<lparr>vr_toClient := vr_toClient s @ mb\<rparr>)"
    using step False nd mb by (auto simp: visionDown_def Let_def v_def split: if_splits)
  have world: "v = relayRun L u node (VisionRelay a i) (ts @ [FromDest (length mb)]) w"
    using at by (simp only: v_def relayRun_append chunk_transfer vision_at_def)
  have at': "vision_at L u node (VisionRelay a i) w ups downs s' v (ts @ [FromDest (length mb)]) xs (ys @ [mb])"
    unfolding vision_at_def
    using at nd mb by (auto simp: s' world vision_at_def simp del: relayRun_snoc)
  have "vr_world s' = v" "\<not> vr_returned s'" using False by (simp_all add: s')
  with at' show ?thesis using vision_inv_intro [of L u node "VisionRelay a i" w ups downs s'] by metis
qed

lemma visionReturn_inv:
  assumes "visionReturn u c s = Some s'" "vision_inv L u node c r w ups downs s"
  shows "vision_inv L u node c r w ups downs s'"
proof -
  have "\<not> vr_returned s" "s' = s\<lparr>vr_returned := True, vr_world := handlerExit (Some u) c (vr_world s)\<rparr>"
    using assms(1) by (auto simp: visionReturn_def split: if_splits)
  then show ?thesis by (intro vision_inv_same [OF assms(2)]) simp_all
qed

lemma visionStep_inv:
  assumes "visionStep L u node c e s = Some s'" "e \<noteq> VClose" "vision_inv L u node c (VisionRelay a i) w ups downs s"
  shows "vision_inv L u node c (VisionRelay a i) w ups downs s'"
  using assms(1,2)
  by (cases e) (simp_all add: visionUp_inv [OF _ assms(3)] visionDown_inv [OF _ assms(3)] visionReturn_inv [OF _ assms(3)])

interpretation vision_transfers: machine "visionStep L u node c" "vision_inv L u node c (VisionRelay a i) w ups downs" "\<lambda>e. e \<noteq> VClose"
  for L u node c a i w ups downs
  by unfold_locales (rule visionStep_inv)

lemma visionStart_inv:
  "visionStart buffers kind dialOk uncover initial wire down w = Inr s \<Longrightarrow>
   vision_inv L u node c r w (uncover (initial @ wire)) down s"
  by (rule vision_inv_intro [where ts = "[]" and xs = "[]" and ys = "[]"]) (auto simp: visionStart_cases vision_at_def)

text \<open>The counters during a run, also after the handler returned.\<close>

lemma vision_run_counts:
  assumes "visionStart buffers kind dialOk uncover initial wire down w = Inr s" "vision_run L u node c s es s'" "VClose \<notin> set es"
    and "is_i64 (fst (counter w (u, node)))" "is_i64 (snd (counter w (u, node)))"
  shows "\<exists>xs ys. uncover (initial @ wire) = xs @ vr_up s' \<and> down = ys @ vr_down s' \<and>
    counter (vr_world s') (u, node) =
      (wrap64 (fst (counter w (u, node)) + int (length (concat xs))), wrap64 (snd (counter w (u, node)) + int (length (concat ys))))"
proof -
  have "vision_inv L u node c (VisionRelay a i) w (uncover (initial @ wire)) down s'" for a i
    using vision_transfers.run_inv [OF assms(2) _ visionStart_inv [OF assms(1)]] assms(3) by (auto simp: list_all_iff)
  then obtain v ts xs ys where "vr_world s' = (if vr_returned s' then handlerExit (Some u) c v else v)"
    "vision_at L u node (VisionRelay [] []) w (uncover (initial @ wire)) down s' v ts xs ys"
    unfolding vision_inv_def by blast
  with visionRun_counter [OF assms(4,5), of L "[]" "[]" ts] show ?thesis
    by (intro exI [of _ xs] exI [of _ ys]) (auto simp: vision_at_def)
qed

lemma relayed_regd:
  assumes "handshake L c w = (Relayed r, reg, w1)"
  shows "\<exists>u. reg = Some u \<and> (case r of MuxRelay i v \<Rightarrow> enableMux w \<and> (v \<longrightarrow> v_Flow (vless_cfg w) = XRV \<and> decryption w = None)
    | VisionRelay a i \<Rightarrow> v_Flow (vless_cfg w) = XRV \<and> decryption w = None | _ \<Rightarrow> True)"
  using assms
proof (cases rule: handshake_cases)
  case (regd u reads data rest)
  with afterAuth_relayed [OF regd(10), unfolded registered_frame] show ?thesis by simp
qed simp



section \<open>The bytes of the handshake\<close>

definition initialOf :: "relay \<Rightarrow> byte list" where
  "initialOf r = (case r of MuxRelay i _ \<Rightarrow> i | VisionRelay _ i \<Rightarrow> i | TcpRelay _ i \<Rightarrow> i | UdpRelay _ i \<Rightarrow> i)"

lemma dispatch_initial:
  assumes "dispatch L c u node flow buf n cur w = (Relayed r, w')"
  shows "\<exists>k. go_slice k n buf = Some (initialOf r)"
  using assms unfolding initialOf_def
  by (auto simp: dispatch_def writeResponse_def Let_def split: option.splits if_splits target.splits prod.splits)

lemma go_slice_copy: "go_slice k (length bs) (copy_arr 512 bs) = Some i \<Longrightarrow> length bs \<le> 512 \<Longrightarrow> take k bs @ i = bs"
  by (auto simp: go_slice_def copy_arr_def take_append split: if_splits)

lemma afterAuth_initial:
  assumes "afterAuth L c u node data rest w = (Relayed r, w')" "headRead L c u node data rest w = (d2, w1)" "length (data @ d2) \<le> 512"
  shows "\<exists>k. take k (data @ d2) @ initialOf r = data @ d2"
proof (cases "addonsAt L data")
  case None
  with assms show ?thesis by (auto simp: afterAuth_def addonsAt_def Let_def)
next
  case (Some flow)
  then have fl: "(if unat (copy_arr 512 data ! 17) = 0 then Some []
      else Option.bind (go_slice 18 (18 + unat (copy_arr 512 data ! 17)) (copy_arr 512 data)) (AddonsFlow L)) = Some flow"
    by (simp add: addonsAt_def Let_def)
  show ?thesis
  proof (cases "headNeed data \<le> length data")
    case True
    with assms fl Some have d2: "d2 = []"
      and d: "dispatch L c u node flow (copy_arr 512 data) (length data) (18 + unat (copy_arr 512 data ! 17)) w = (Relayed r, w')"
      by (auto simp: afterAuth_def headRead_def headNeed_def Let_def)
    from dispatch_initial [OF d] go_slice_copy assms(3) show ?thesis unfolding d2 by fastforce
  next
    case False
    obtain b ok r2 v where rd: "readAtLeast (\<lambda>k. countingRead L u node (int k)) (isOpen (k_id c))
        (512 - length data) (headNeed data - length data) rest w = ((b, ok), r2, v)"
      by (metis prod.exhaust)
    with False Some assms(2) have e: "v = w1" "b = d2" by (simp_all add: headRead_def)
    have "ok" using assms(1) fl False rd by (auto simp: afterAuth_def headNeed_def Let_def split: if_splits)
    with assms(1) fl False rd e have
      d: "dispatch L c u node flow (copy_arr 512 (data @ d2)) (length (data @ d2)) (18 + unat (copy_arr 512 data ! 17)) w1 = (Relayed r, w')"
      by (simp add: afterAuth_def headNeed_def Let_def)
    from dispatch_initial [OF d] go_slice_copy assms(3) show ?thesis by blast
  qed
qed

text \<open>What the two header reads of a registered connection took from the stream, and the state after them.\<close>

definition headerTaken :: "('l, 'd) lib \<Rightarrow> conn_in \<Rightarrow> uuid \<Rightarrow> ('l, 'd) world \<Rightarrow> byte list \<Rightarrow> bool" where
  "headerTaken L c u w bs \<longleftrightarrow>
     (\<exists>reads data rest d2 wh. handshakeReads L c w = Some reads \<and>
        readAtLeast (\<lambda>_ w. w) (isOpen (k_id c)) 512 18 reads w = ((data, True), rest, w) \<and>
        headRead L c u (entryNodeOf (k_kind c) w) data rest (registered u c (length data) w) = (d2, wh) \<and> bs = data @ d2)"

lemma relayed_header:
  assumes h: "handshake L c w = (Relayed r, Some u, w')" and wf: "wf_world w"
  shows "\<exists>hdr tail reads. headerTaken L c u w (hdr @ initialOf r) \<and> handshakeReads L c w = Some reads \<and> hdr @ initialOf r @ tail = inBytes reads \<and>
    counter w' (u, entryNodeOf (k_kind c) w) =
      (wrap64 (fst (counter w (u, entryNodeOf (k_kind c) w)) + int (length hdr + length (initialOf r))),
       wrap64 (snd (counter w (u, entryNodeOf (k_kind c) w)) + int (fst (k_write c))))"
proof -
  from handshake_read [OF h] obtain reads data rest where r: "handshakeReads L c w = Some reads"
    "readAtLeast (\<lambda>_ w. w) (isOpen (k_id c)) 512 18 reads w = ((data, True), rest, w)"
    "afterAuth L c u (entryNodeOf (k_kind c) w) data rest (registered u c (length data) w) = (Relayed r, w')" by metis
  from registered_counts [OF h wf] r(1,2) obtain d2 wh m tail where c:
    "headRead L c u (entryNodeOf (k_kind c) w) data rest (registered u c (length data) w) = (d2, wh)"
    "responseCounted c (Relayed r) wh m" "length data + length d2 \<le> 512" "data @ d2 @ tail = inBytes reads"
    "counter w' (u, entryNodeOf (k_kind c) w) =
      (wrap64 (fst (counter w (u, entryNodeOf (k_kind c) w)) + int (length data + length d2)),
       wrap64 (snd (counter w (u, entryNodeOf (k_kind c) w)) + m))" by auto
  from afterAuth_initial [OF r(3) c(1)] c(3) obtain k where k: "take k (data @ d2) @ initialOf r = data @ d2" by auto
  have len: "length data + length d2 = length (take k (data @ d2)) + length (initialOf r)"
    using arg_cong [OF k, of length] by simp
  have "headerTaken L c u w (take k (data @ d2) @ initialOf r)" using r c(1) unfolding headerTaken_def k by blast
  moreover have "take k (data @ d2) @ initialOf r @ tail = inBytes reads" using arg_cong [OF k, of "\<lambda>x. x @ tail"] c(4) by simp
  moreover have "m = int (fst (k_write c))" using c(2) by (simp add: responseCounted_def)
  ultimately show ?thesis using c(5) r(1) unfolding len by blast
qed

section \<open>Properties\<close>

text \<open>C21: The Vision relay implements the relay that \<open>handleConnection\<close> is stated over. When the handler has returned,
  the server is what the abstract relay leaves after some list of transfers followed by the clean-up: the bytes
  counted upwards are exactly the payload chunks read from the client, whatever became of their writes, those shaped
  upwards are exactly the bytes written to the destination, and those counted and shaped downwards are exactly the
  chunks read from the destination. What either side received is a prefix of the chunks read for it.\<close>

theorem vision_relay_refines:
  assumes "visionStart buffers kind dialOk uncover initial wire down w = Inr s" "vision_run L u node c s es s'"
    and "VClose \<notin> set es" "vr_returned s'" "wf_world w"
  shows "\<exists>ts xs ys. vr_world s' = handlerExit (Some u) c (relayRun L u node (VisionRelay a initial) ts w) \<and>
      uncover (initial @ wire) = xs @ vr_up s' \<and> down = ys @ vr_down s' \<and>
      fromClient ts = length (concat xs) \<and> toDest ts = length (vr_toDest s') \<and> fromDest ts = length (concat ys) \<and>
      prefix (vr_toDest s') (concat xs) \<and> prefix (vr_toClient s') (concat ys) \<and>
      counter (vr_world s') (u, node) =
        (wrap64 (fst (counter w (u, node)) + int (length (concat xs))), wrap64 (snd (counter w (u, node)) + int (length (concat ys))))"
proof -
  have "vision_inv L u node c (VisionRelay a initial) w (uncover (initial @ wire)) down s'"
    using vision_transfers.run_inv [OF assms(2) _ visionStart_inv [OF assms(1)]] assms(3) by (auto simp: list_all_iff)
  then obtain ts xs ys v where at: "vr_world s' = handlerExit (Some u) c v"
    "vision_at L u node (VisionRelay a initial) w (uncover (initial @ wire)) down s' v ts xs ys"
    using assms(4) unfolding vision_inv_def by auto
  with visionRun_counter [OF wf_counters [OF assms(5), of "(u, node)"], of L a initial ts] show ?thesis
    by (intro exI [of _ ts] exI [of _ xs] exI [of _ ys]) (simp add: vision_at_def)
qed

text \<open>C23: What a Vision connection costs its user. Her upload counter grows by all bytes the header reads took from
  her stream, the initial payload included, and then by every payload chunk the Vision reader finds in that initial
  payload and the rest of the stream: the payload that came with the header is counted twice (once with its padding).
  Her download counter grows by the response and by every chunk read from the destination.\<close>

theorem vision_accounting:
  assumes h: "handshake L c w = (Relayed (VisionRelay a initial), Some u, w1)" and wf: "wf_world w"
    and start: "visionStart (k_buffers c) (k_kind c) (k_dial c) uncover initial wire down w1 = Inr s"
    and run: "vision_run L u (entryNodeOf (k_kind c) w) (k_id c) s es s'" "VClose \<notin> set es"
  shows "\<exists>hdr xs ys. headerTaken L c u w (hdr @ initial) \<and>
      uncover (initial @ wire) = xs @ vr_up s' \<and> down = ys @ vr_down s' \<and>
      counter (vr_world s') (u, entryNodeOf (k_kind c) w) =
        (wrap64 (fst (counter w (u, entryNodeOf (k_kind c) w)) + int (length hdr + length initial) + int (length (concat xs))),
         wrap64 (snd (counter w (u, entryNodeOf (k_kind c) w)) + int (fst (k_write c)) + int (length (concat ys))))"
proof -
  from relayed_header [OF h wf] obtain hdr where hdr: "headerTaken L c u w (hdr @ initial)"
    "counter w1 (u, entryNodeOf (k_kind c) w) =
      (wrap64 (fst (counter w (u, entryNodeOf (k_kind c) w)) + int (length hdr + length initial)),
       wrap64 (snd (counter w (u, entryNodeOf (k_kind c) w)) + int (fst (k_write c))))"
    by (auto simp: initialOf_def)
  have "is_i64 (fst (counter w1 (u, entryNodeOf (k_kind c) w)))" "is_i64 (snd (counter w1 (u, entryNodeOf (k_kind c) w)))"
    by (simp_all add: hdr(2))
  from vision_run_counts [OF start run this] hdr show ?thesis by auto
qed

text \<open>C22: Vision only runs where the outer connection can carry it. When the handshake selects Vision, alone or under
  Mux, on a connection that is neither TLS 1.3 nor REALITY, the handler returns without relaying a byte, whatever
  the peers send; and the configuration allows the flow and uses no decryption.\<close>

theorem vision_needs_tls13:
  assumes "handshake L c w = (Relayed r, reg, w1)" "(\<exists>a i. r = VisionRelay a i) \<or> (\<exists>i. r = MuxRelay i True)"
  shows "v_Flow (vless_cfg w) = XRV \<and> decryption w = None \<and>
    (k_kind c \<noteq> TlsConn 772 \<and> (\<forall>sid. k_kind c \<noteq> RealityConn sid) \<longrightarrow>
       (\<forall>ts. snd (handleConnection L c ts w) = handlerExit reg (k_id c) w1))"
proof -
  from relayed_regd [OF assms(1)] obtain u where u: "reg = Some u" by blast
  have flow: "v_Flow (vless_cfg w) = XRV \<and> decryption w = None" using relayed_regd [OF assms(1)] assms(2) by auto
  have "\<not> relayReady c r" if "k_kind c \<noteq> TlsConn 772 \<and> (\<forall>sid. k_kind c \<noteq> RealityConn sid)"
    using assms(2) that by (auto simp: relayReady_def setupVisionConn_ok)
  with flow show ?thesis by (auto simp: handleConnection_def assms(1) u)
qed

section \<open>Witnesses\<close>

text \<open>Three bytes arrive with the header and two after it; the Vision reader passes them through in two chunks. The
  first is written in two pieces, the write of the second fails after one byte, and the handler returns.\<close>

definition exChunks :: "byte list \<Rightarrow> byte list list" where
  "exChunks bs = [take 3 bs, drop 3 bs]"

lemma limited_frame [simp]: "closed (limitedWrite L u n w) = closed w" "userQuota (limitedWrite L u n w) = userQuota w"
  "users (limitedWrite L u n w) = users w"
  by (simp_all add: limitedWrite_def)

lemma exChunk_open:
  assumes "userQuota w u = None"
  shows "closed (accountChunk (\<lambda>n. addTraffic u node n 0) mb w) = closed w \<and> userQuota (accountChunk (\<lambda>n. addTraffic u node n 0) mb w) u = None"
  using assms by (simp add: accountChunk_def addTraffic_quota accrueQuotaLocked_def)

theorem vision_relay_refines_witness:
  "\<exists>s s'. visionStart (True, True) (TlsConn 772) True exChunks [1, 2, 3] [4, 5] [[6]] exServer = Inr s \<and>
     vision_run exLib exUUID [] 7 s [VUp True [2, 1] False, VUp False [1] True, VReturn] s' \<and>
     vr_toDest s' = [1, 2, 3, 4] \<and> counter (vr_world s') (exUUID, []) = (5, 0)"
proof -
  let ?one = "\<lambda>ks mb w. fold (\<lambda>k. limitedWrite exLib exUUID (int k)) ks (accountChunk (\<lambda>n. addTraffic exUUID [] n 0) mb w)"
  define s :: "((nat \<times> int \<times> int), unit) vision_relay" where
    "s = \<lparr>vr_world = exServer, vr_up = [[1, 2, 3], [4, 5]], vr_down = [[6]], vr_toDest = [], vr_toClient = [],
       vr_upDone = False, vr_downDone = False, vr_returned = False\<rparr>"
  define s1 where "s1 = s\<lparr>vr_world := ?one [2, 1] [1, 2, 3] exServer, vr_up := [[4, 5]], vr_toDest := [1, 2, 3]\<rparr>"
  define s2 where "s2 = s1\<lparr>vr_world := ?one [1] [4, 5] (vr_world s1), vr_up := [], vr_toDest := [1, 2, 3, 4], vr_upDone := True\<rparr>"
  define s3 where "s3 = s2\<lparr>vr_returned := True, vr_world := handlerExit (Some exUUID) 7 (vr_world s2)\<rparr>"
  have start: "visionStart (True, True) (TlsConn 772) True exChunks [1, 2, 3] [4, 5] [[6]] exServer = Inr s"
    by (simp add: visionStart_cases setupVisionConn_def peekBuffers_def s_def exChunks_def)
  have e1: "visionStep exLib exUUID [] 7 (VUp True [2, 1] False) s = Some s1" by (simp add: visionUp_def s1_def s_def Let_def)
  have "isOpen 7 (vr_world s1)" using exChunk_open [of exServer exUUID] by (simp add: s1_def isOpen_def)
  then have e2: "visionStep exLib exUUID [] 7 (VUp False [1] True) s1 = Some s2" by (simp add: visionUp_def s2_def s1_def s_def Let_def)
  have e3: "visionStep exLib exUUID [] 7 VReturn s2 = Some s3" by (simp add: visionReturn_def s3_def s2_def s1_def s_def)
  from e1 e2 e3 have run: "vision_run exLib exUUID [] 7 s [VUp True [2, 1] False, VUp False [1] True, VReturn] s3"
    by (intro runs_exec) (simp del: visionStep.simps)
  have c0: "counter exServer (exUUID, []) = (0, 0)" by (simp add: counter_def exServer_def NewServer_def)
  have fields: "vr_up s3 = []" "vr_down s3 = [[6]]" "vr_returned s3" "vr_toDest s3 = [1, 2, 3, 4]"
    by (simp_all add: s3_def s2_def s1_def s_def)
  from vision_relay_refines [OF start run _ fields(3) exServer_wf, where a = "[]"] obtain xs ys where
    "exChunks ([1, 2, 3] @ [4, 5]) = xs @ vr_up s3" "[[6]] = ys @ vr_down s3"
    "counter (vr_world s3) (exUUID, []) = (wrap64 (0 + int (length (concat xs))), wrap64 (0 + int (length (concat ys))))"
    unfolding c0 by auto
  then have "counter (vr_world s3) (exUUID, []) = (5, 0)" by (auto simp: fields exChunks_def wrap64_id is_i64_def)
  with start run fields show ?thesis by auto
qed

text \<open>A Vision request over a plain connection.\<close>

definition exVisionServer :: "((nat \<times> int \<times> int), unit) world" where
  "exVisionServer = exServer\<lparr>vless_cfg := zeroVLESS\<lparr>v_Flow := XRV\<rparr>\<rparr>"

definition exVisionConn :: conn_in where
  "exVisionConn = exConn [(encodeHeader exUUID exAddons CmdTCP 443 (Dom ''a.io'') @ [], False)]"

lemma exVisionServer_accepts: "\<exists>a i w1. handshake exStrictLib exVisionConn exVisionServer = (Relayed (VisionRelay a i), Some exUUID, w1)"
proof -
  have len: "length exAddons = 18" by (simp add: exAddons_def XRV_def)
  have "handshake exStrictLib exVisionConn exVisionServer =
     (Relayed (relayFor XRV CmdTCP (joinHostPort (hostOf (Dom ''a.io'')) (itoa (int 443))) []), Some exUUID,
      countingWrite exStrictLib exUUID (entryNodeOf (k_kind exVisionConn) exVisionServer) 2
        (registered exUUID exVisionConn (length (encodeHeader exUUID exAddons CmdTCP 443 (Dom ''a.io'') @ [])) exVisionServer))"
    by (rule handshake_encoded [where e = False and rest = "[]"])
      (simp_all add: len encodeHeader_def encodeHead_def encodePort_def handshakeReads_def exVisionConn_def exConn_def exVisionServer_def
        exStrictLib_def exServer_def NewServer_def userOverQuota_def userOverQuotaLocked_def flow_ok_def isOpen_def registered_def
        addTraffic_quota accrueQuotaLocked_def exAddons_def XRV_def)
  then show ?thesis by (simp add: relayFor_def)
qed

theorem vision_needs_tls13_witness:
  "\<exists>w1. \<forall>ts. snd (handleConnection exStrictLib exVisionConn ts exVisionServer) = handlerExit (Some exUUID) 7 w1"
proof -
  obtain a i w1 where h: "handshake exStrictLib exVisionConn exVisionServer = (Relayed (VisionRelay a i), Some exUUID, w1)"
    using exVisionServer_accepts by blast
  show ?thesis using vision_needs_tls13 [OF h] by (auto simp: exVisionConn_def exConn_def)
qed

text \<open>A Vision request over TLS 1.3: two bytes of padding and one of payload arrive with the header, two more bytes of
  payload after it; the Vision reader strips the padding.\<close>

definition exVisionHead :: "byte list" where
  "exVisionHead = encodeHeader exUUID exAddons CmdTCP 443 (Dom ''a.io'')"

definition exVisionTls :: conn_in where
  "exVisionTls = exVisionConn\<lparr>k_kind := TlsConn 772, k_reads := [(exVisionHead @ [9, 9, 1], False)]\<rparr>"

definition exUnpad :: "byte list \<Rightarrow> byte list list" where
  "exUnpad bs = [drop 2 bs]"

lemma exVisionHead_length [simp]: "length exVisionHead = 45"
  by (simp add: exVisionHead_def encodeHeader_def encodeHead_def encodePort_def exAddons_def XRV_def)

lemma exVisionTls_accepts:
  "\<exists>a w1. handshake exStrictLib exVisionTls exVisionServer = (Relayed (VisionRelay a [9, 9, 1]), Some exUUID, w1) \<and> isOpen 7 w1"
proof -
  have len: "length exAddons = 18" by (simp add: exAddons_def XRV_def)
  let ?reg = "registered exUUID exVisionTls (length (encodeHeader exUUID exAddons CmdTCP 443 (Dom ''a.io'') @ [9, 9, 1])) exVisionServer"
  have q: "userQuota ?reg exUUID = None" "closed ?reg = {}"
    by (simp_all add: registered_def addTraffic_quota accrueQuotaLocked_def exVisionServer_def exServer_def NewServer_def)
  have "handshake exStrictLib exVisionTls exVisionServer =
     (Relayed (relayFor XRV CmdTCP (joinHostPort (hostOf (Dom ''a.io'')) (itoa (int 443))) [9, 9, 1]), Some exUUID,
      countingWrite exStrictLib exUUID (entryNodeOf (k_kind exVisionTls) exVisionServer) 2 ?reg)"
    by (rule handshake_encoded [where e = False and rest = "[]"])
      (simp_all add: len encodeHeader_def encodeHead_def encodePort_def handshakeReads_def exVisionTls_def exVisionConn_def exVisionHead_def
        exConn_def exVisionServer_def
        exStrictLib_def exServer_def NewServer_def userOverQuota_def userOverQuotaLocked_def flow_ok_def isOpen_def registered_def
        addTraffic_quota accrueQuotaLocked_def exAddons_def XRV_def)
  moreover have "isOpen 7 (countingWrite exStrictLib exUUID node 2 ?reg)" for node
    using counting_uncapped(2) [OF q(1), of exStrictLib node 2] q(2) by (simp add: isOpen_def)
  ultimately show ?thesis by (simp add: relayFor_def)
qed

lemma exVisionTls_taken:
  assumes "headerTaken exStrictLib exVisionTls exUUID exVisionServer bs"
  shows "bs = exVisionHead @ [9, 9, 1]"
proof -
  have r: "handshakeReads exStrictLib exVisionTls exVisionServer = Some [(exVisionHead @ [9, 9, 1], False)]"
    by (simp add: handshakeReads_def exVisionTls_def exVisionServer_def)
  have "readAtLeast (\<lambda>_ w. w) (isOpen (k_id exVisionTls)) 512 18 [(exVisionHead @ [9, 9, 1], False)] exVisionServer =
      ((exVisionHead @ [9, 9, 1], True), [], exVisionServer)"
    by (subst readAtLeast_first) (simp_all add: isOpen_def exVisionServer_def)
  moreover have "headNeed (exVisionHead @ [9, 9, 1]) = 40"
    unfolding exVisionHead_def
    by (subst headNeed_encode) (simp_all add: exVisionHead_def [symmetric], simp_all add: exAddons_def XRV_def)
  then have "headRead exStrictLib exVisionTls exUUID node (exVisionHead @ [9, 9, 1]) [] w = ([], w)" for node and w :: ex_world
    by (simp add: headRead_def)
  ultimately show ?thesis using assms r by (auto simp: headerTaken_def)
qed

theorem vision_accounting_witness:
  "\<exists>w1 s s'. fst (snd (handshake exStrictLib exVisionTls exVisionServer)) = Some exUUID \<and>
     visionStart (True, True) (TlsConn 772) True exUnpad [9, 9, 1] [2, 3] [] w1 = Inr s \<and>
     vision_run exStrictLib exUUID [] 7 s [VUp True [3] False] s' \<and> vr_toDest s' = [1, 2, 3] \<and>
     counter (vr_world s') (exUUID, []) = (51, 2)"
proof -
  obtain a w1 where h: "handshake exStrictLib exVisionTls exVisionServer = (Relayed (VisionRelay a [9, 9, 1]), Some exUUID, w1)"
    and op: "isOpen 7 w1" using exVisionTls_accepts by blast
  have k: "k_buffers exVisionTls = (True, True)" "k_kind exVisionTls = TlsConn 772" "k_dial exVisionTls = True" "k_id exVisionTls = 7"
    "fst (k_write exVisionTls) = 2" "entryNodeOf (TlsConn 772) exVisionServer = []"
    by (simp_all add: exVisionTls_def exVisionConn_def exConn_def entryNodeOf_def)
  define s :: "((nat \<times> int \<times> int), unit) vision_relay" where
    "s = \<lparr>vr_world = w1, vr_up = [[1, 2, 3]], vr_down = [], vr_toDest = [], vr_toClient = [],
       vr_upDone = False, vr_downDone = False, vr_returned = False\<rparr>"
  define s1 where "s1 = s\<lparr>vr_world := limitedWrite exStrictLib exUUID 3 (accountChunk (\<lambda>n. addTraffic exUUID [] n 0) [1, 2, 3] w1),
     vr_up := [], vr_toDest := [1, 2, 3]\<rparr>"
  have start: "visionStart (True, True) (TlsConn 772) True exUnpad [9, 9, 1] [2, 3] [] w1 = Inr s"
    by (simp add: visionStart_cases setupVisionConn_def peekBuffers_def s_def exUnpad_def)
  have run: "vision_run exStrictLib exUUID [] 7 s [VUp True [3] False] s1"
    by (rule runs_one) (use op in \<open>simp add: visionUp_def s1_def s_def Let_def\<close>)
  have wf: "wf_world exVisionServer" using exServer_wf by (simp add: exVisionServer_def wf_world_def)
  have c0: "counter exVisionServer k = (0, 0)" for k by (simp add: counter_def exVisionServer_def exServer_def NewServer_def)
  from vision_accounting [OF h wf, unfolded k, OF start run] obtain hdr xs ys where t:
    "headerTaken exStrictLib exVisionTls exUUID exVisionServer (hdr @ [9, 9, 1])"
    "exUnpad ([9, 9, 1] @ [2, 3]) = xs @ vr_up s1" "[] = ys @ vr_down s1"
    "counter (vr_world s1) (exUUID, []) =
      (wrap64 (fst (counter exVisionServer (exUUID, [])) + int (length hdr + length [9 :: byte, 9, 1]) + int (length (concat xs))),
       wrap64 (snd (counter exVisionServer (exUUID, [])) + int 2 + int (length (concat ys))))"
    by auto
  have "hdr = exVisionHead" using exVisionTls_taken [OF t(1)] by simp
  moreover have "xs = [[1, 2, 3]]" "ys = []" using t(2,3) by (simp_all add: s1_def s_def exUnpad_def)
  ultimately have "counter (vr_world s1) (exUUID, []) = (51, 2)"
    using t(4) by (simp add: c0 wrap64_id is_i64_def)
  moreover have "fst (snd (handshake exStrictLib exVisionTls exVisionServer)) = Some exUUID" by (simp add: h)
  moreover have "vr_toDest s1 = [1, 2, 3]" by (simp add: s1_def)
  ultimately show ?thesis using start run by blast
qed

end
