(* ===== verification/Mux.thy ===== *)
theory Mux
  imports Server_Run Tcp_Relay
begin

text \<open>
  \<open>proxy/vless/mux.go\<close>: Mux.Cool. The frame layer is xray-core's \<open>mux.ServerWorker\<close>; the file gives it a stream to
  read and write (\<open>handleMux\<close>) and opens the sessions' destinations (\<open>dialDispatcher.Dispatch\<close>): a TCP connection,
  or for UDP an unconnected socket that accepts replies from any source (full cone). Two goroutines bridge a session
  and its socket, and each closes the socket when it ends.
\<close>

section \<open>The stream given to the worker\<close>

datatype mux_stream =
    PlainStream "byte list" \<comment> \<open>\<open>buf.BufferedReader\<close>: the initial data, then the counting connection\<close>
  | VisionStream "byte list" \<comment> \<open>\<open>accountReader\<close> and \<open>accountWriter\<close> around the Vision reader and writer\<close>

datatype mux_outcome = MuxSetup vision_error | MuxWorkerFailed | MuxTunnel mux_stream

definition handleMux :: "bool \<times> bool \<Rightarrow> conn_kind \<Rightarrow> bool \<Rightarrow> byte list \<Rightarrow> bool \<Rightarrow> mux_outcome" where
  "handleMux buffers kind workerOk initialData isVision =
     (if isVision then
        (case setupVisionConn (fst buffers) (snd buffers) kind of
           Some e \<Rightarrow> MuxSetup e
         | None \<Rightarrow> if \<not> workerOk then MuxWorkerFailed else MuxTunnel (VisionStream initialData))
      else if \<not> workerOk then MuxWorkerFailed
      else MuxTunnel (PlainStream initialData))"

text \<open>What a chunk read from, or written to, the stream does to the server.\<close>

fun muxRead :: "('l, 'd) lib \<Rightarrow> uuid \<Rightarrow> string \<Rightarrow> mux_stream \<Rightarrow> byte list \<Rightarrow> ('l, 'd) world \<Rightarrow> ('l, 'd) world" where
  "muxRead L u node (PlainStream i) mb w = countingRead L u node (int (length mb)) w"
| "muxRead L u node (VisionStream i) mb w = accountChunk (\<lambda>n. addTraffic u node n 0) mb w"

fun muxWrite :: "('l, 'd) lib \<Rightarrow> uuid \<Rightarrow> string \<Rightarrow> mux_stream \<Rightarrow> byte list \<Rightarrow> ('l, 'd) world \<Rightarrow> ('l, 'd) world" where
  "muxWrite L u node (PlainStream i) mb w = countingWrite L u node (int (length mb)) w"
| "muxWrite L u node (VisionStream i) mb w = accountChunk (\<lambda>n. addTraffic u node 0 n) mb w"

section \<open>The dispatcher\<close>

record udp_addr =
  ua_ip :: "byte list" \<comment> \<open>\<open>net.IP\<close>; nil is the empty list\<close>
  ua_port :: nat

definition To4 :: "byte list \<Rightarrow> byte list option" where
  "To4 ip =
     (if length ip = 4 then Some ip
      else if length ip = 16 \<and> take 10 ip = replicate 10 0 \<and> take 2 (drop 10 ip) = [255, 255] then Some (drop 12 ip)
      else None)"

definition IPv4zero :: "byte list" where "IPv4zero = replicate 10 0 @ [255, 255, 0, 0, 0, 0]"
definition IPv6zero :: "byte list" where "IPv6zero = replicate 16 0"

record net_env =
  ResolveUDPAddr :: "string \<Rightarrow> udp_addr option"
  ListenUDP :: "string \<Rightarrow> udp_addr \<Rightarrow> bool"
  DialTCP :: "string \<Rightarrow> bool"

text \<open>A UDP socket of the \<open>net\<close> package: its network, the address it is bound to (port 0 asks the system for one),
  and the peer when it is connected. \<open>ListenUDP\<close> gives an unconnected one.\<close>

record udp_socket =
  so_net :: string
  so_local :: udp_addr
  so_peer :: "udp_addr option"

definition listenUDP :: "net_env \<Rightarrow> string \<Rightarrow> udp_addr \<Rightarrow> udp_socket option" where
  "listenUDP env network bind =
     (if ListenUDP env network bind then Some \<lparr>so_net = network, so_local = bind, so_peer = None\<rparr> else None)"

datatype bridge = UdpBridge udp_socket udp_addr | TcpBridge string

datatype dispatch_error = ResolveError | ListenError | DialError

definition Dispatch :: "net_env \<Rightarrow> bool \<Rightarrow> string \<Rightarrow> dispatch_error + bridge" where
  "Dispatch env isUDP netAddr =
     (if isUDP then
        (case ResolveUDPAddr env netAddr of
           None \<Rightarrow> Inl ResolveError
         | Some ua \<Rightarrow>
             (let (listenNet, bind) =
                    (if ua_ip ua \<noteq> [] \<and> To4 (ua_ip ua) = None then (''udp6'', \<lparr>ua_ip = IPv6zero, ua_port = 0\<rparr>)
                     else (''udp4'', \<lparr>ua_ip = IPv4zero, ua_port = 0\<rparr>))
              in case listenUDP env listenNet bind of
                   None \<Rightarrow> Inl ListenError
                 | Some pc \<Rightarrow> Inr (UdpBridge pc ua)))
      else if \<not> DialTCP env netAddr then Inl DialError
      else Inr (TcpBridge netAddr))"

section \<open>A UDP session\<close>

text \<open>A datagram as the worker gets it: cut to the buffer and stamped with its source.\<close>

type_synonym packet = "byte list \<times> udp_addr option"

definition ReadMultiBuffer :: "nat \<Rightarrow> packet \<Rightarrow> packet" where
  "ReadMultiBuffer bufSize d = (take bufSize (fst d), snd d)"

text \<open>Which datagrams a socket receives, as the \<open>net\<close> package documents it: of its own family, addressed to the
  address it is bound to (to any, when that is unspecified), and from its peer when it is connected.\<close>

definition sameFamily :: "udp_socket \<Rightarrow> byte list \<Rightarrow> bool" where
  "sameFamily so ip \<longleftrightarrow> (if so_net so = ''udp4'' then To4 ip \<noteq> None else To4 ip = None)"

definition unspecified :: "byte list \<Rightarrow> bool" where
  "unspecified ip \<longleftrightarrow> ip = IPv6zero \<or> To4 ip = Some [0, 0, 0, 0]"

definition receives :: "udp_socket \<Rightarrow> byte list \<Rightarrow> packet \<Rightarrow> bool" where
  "receives so local d \<longleftrightarrow>
     sameFamily so local \<and> (unspecified (ua_ip (so_local so)) \<or> ua_ip (so_local so) = local) \<and>
     (so_peer so = None \<or> snd d = so_peer so)"

record udp_session =
  us_out :: "(udp_addr \<times> byte list) list"
  us_in :: "packet list"
  us_open :: bool
  us_reqDone :: bool
  us_respDone :: bool

definition newSession :: udp_session where
  "newSession = \<lparr>us_out = [], us_in = [], us_open = True, us_reqDone = False, us_respDone = False\<rparr>"

definition fullConeWrite :: "udp_addr \<Rightarrow> byte list \<Rightarrow> udp_session \<Rightarrow> udp_session" where
  "fullConeWrite dest b s = s\<lparr>us_out := us_out s @ [(dest, b)]\<rparr>"

text \<open>The two bridging goroutines: \<open>buf.Copy\<close> until a read or a write fails, then \<open>closer.Close()\<close>.\<close>

text \<open>\<open>Reply local d\<close>: a datagram \<open>d\<close> arrives for the local address \<open>local\<close>; the socket of the session receives it or
  the system drops it.\<close>

datatype session_event = Request "byte list" | RequestsEnd | Reply "byte list" packet | RepliesFail

fun sessionStep :: "nat \<Rightarrow> udp_socket \<Rightarrow> udp_addr \<Rightarrow> session_event \<Rightarrow> udp_session \<Rightarrow> udp_session option" where
  "sessionStep bufSize sock dest (Request b) s =
     (if us_reqDone s then None
      else if us_open s then Some (fullConeWrite dest b s)
      else Some (s\<lparr>us_reqDone := True\<rparr>))"
| "sessionStep bufSize sock dest RequestsEnd s =
     (if us_reqDone s then None else Some (s\<lparr>us_reqDone := True, us_open := False\<rparr>))"
| "sessionStep bufSize sock dest (Reply local d) s =
     (if us_respDone s then None
      else if us_open s then
        Some (if receives sock local d then s\<lparr>us_in := us_in s @ [ReadMultiBuffer bufSize d]\<rparr> else s)
      else Some (s\<lparr>us_respDone := True\<rparr>))"
| "sessionStep bufSize sock dest RepliesFail s =
     (if us_respDone s then None else Some (s\<lparr>us_respDone := True, us_open := False\<rparr>))"

fun requestsIn :: "session_event list \<Rightarrow> byte list list" where
  "requestsIn [] = []"
| "requestsIn (Request b # es) = b # requestsIn es"
| "requestsIn (_ # es) = requestsIn es"

fun repliesIn :: "session_event list \<Rightarrow> (byte list \<times> packet) list" where
  "repliesIn [] = []"
| "repliesIn (Reply local d # es) = (local, d) # repliesIn es"
| "repliesIn (_ # es) = repliesIn es"

lemma eventsIn_append [simp]: "requestsIn (xs @ ys) = requestsIn xs @ requestsIn ys" "repliesIn (xs @ ys) = repliesIn xs @ repliesIn ys"
  by (induction xs rule: requestsIn.induct; simp)+

definition live_event :: "session_event \<Rightarrow> bool" where
  "live_event e \<longleftrightarrow> e \<noteq> RequestsEnd \<and> e \<noteq> RepliesFail"

text \<open>The datagrams among these the socket of the session receives.\<close>

definition received :: "udp_socket \<Rightarrow> session_event list \<Rightarrow> packet list" where
  "received sock es = map snd (filter (\<lambda>(local, d). receives sock local d) (repliesIn es))"

lemma received_simps [simp]:
  "received sock (xs @ ys) = received sock xs @ received sock ys" "received sock [] = []" "received sock [Request b] = []"
  "received sock [Reply local d] = (if receives sock local d then [d] else [])"
  by (simp_all add: received_def)

definition session_inv :: "nat \<Rightarrow> udp_socket \<Rightarrow> udp_addr \<Rightarrow> session_event list \<Rightarrow> udp_session \<Rightarrow> bool" where
  "session_inv bufSize sock dest es s \<longleftrightarrow>
     (let before = takeWhile live_event es
      in us_out s = map (Pair dest) (requestsIn before) \<and> us_in s = map (ReadMultiBuffer bufSize) (received sock before)) \<and>
     (us_open s \<longleftrightarrow> list_all live_event es) \<and> (us_reqDone s \<or> us_respDone s \<longrightarrow> \<not> us_open s)"

definition liveBefore :: "session_event list \<Rightarrow> session_event list" where
  "liveBefore es = takeWhile live_event es"

lemma liveBefore_snoc: "liveBefore (es @ [e]) = (if list_all live_event es then es @ (if live_event e then [e] else []) else liveBefore es)"
  unfolding liveBefore_def by (induction es) simp_all

lemma liveBefore_all: "list_all live_event es \<Longrightarrow> liveBefore es = es"
  unfolding liveBefore_def by (induction es) simp_all

lemma session_inv_simps:
  "session_inv bufSize sock dest es s \<longleftrightarrow> us_out s = map (Pair dest) (requestsIn (liveBefore es)) \<and>
     us_in s = map (ReadMultiBuffer bufSize) (received sock (liveBefore es)) \<and>
     (us_open s \<longleftrightarrow> list_all live_event es) \<and> (us_reqDone s \<or> us_respDone s \<longrightarrow> \<not> us_open s)"
  by (simp add: session_inv_def liveBefore_def Let_def conj_assoc)

lemma live_simps [simp]: "live_event (Request b)" "\<not> live_event RequestsEnd" "live_event (Reply local d)" "\<not> live_event RepliesFail"
  by (simp_all add: live_event_def)

lemma session_step_inv:
  assumes "sessionStep bufSize sock dest e s = Some s'" "session_inv bufSize sock dest es s"
  shows "session_inv bufSize sock dest (es @ [e]) s'"
proof -
  note inv = assms(2) [unfolded session_inv_simps]
  show ?thesis
  proof (cases "us_open s")
    case True
    with inv have all: "list_all live_event es" "\<not> us_reqDone s" "\<not> us_respDone s" by simp_all
    show ?thesis
    proof (cases e)
      case (Request b)
      with assms(1) True all have "s' = fullConeWrite dest b s" by simp
      with inv all True Request show ?thesis by (simp add: session_inv_simps liveBefore_snoc liveBefore_all fullConeWrite_def)
    next
      case RequestsEnd
      with assms(1) True all have "s' = s\<lparr>us_reqDone := True, us_open := False\<rparr>" by simp
      with inv all RequestsEnd show ?thesis by (simp add: session_inv_simps liveBefore_snoc liveBefore_all)
    next
      case (Reply local d)
      with assms(1) True all have "s' = (if receives sock local d then s\<lparr>us_in := us_in s @ [ReadMultiBuffer bufSize d]\<rparr> else s)" by simp
      with inv all True Reply show ?thesis by (simp add: session_inv_simps liveBefore_snoc liveBefore_all)
    next
      case RepliesFail
      with assms(1) True all have "s' = s\<lparr>us_respDone := True, us_open := False\<rparr>" by simp
      with inv all RepliesFail show ?thesis by (simp add: session_inv_simps liveBefore_snoc liveBefore_all)
    qed
  next
    case False
    with inv have all: "\<not> list_all live_event es" by simp
    from assms(1) False have "us_out s' = us_out s \<and> us_in s' = us_in s \<and> \<not> us_open s'"
      by (cases e) (auto split: if_splits)
    with inv all show ?thesis by (simp add: session_inv_simps liveBefore_snoc)
  qed
qed

lemma session_run_inv: "runs (sessionStep bufSize sock dest) s0 es s \<Longrightarrow> s0 = newSession \<Longrightarrow> session_inv bufSize sock dest es s"
proof (induction rule: runs.induct)
  case (nil s)
  then show ?case by (simp add: session_inv_simps liveBefore_def newSession_def)
next
  case (snoc s es s' e s'')
  then show ?case by (simp add: session_step_inv [OF snoc.hyps(2)])
qed

section \<open>Properties\<close>

text \<open>A Mux connection is set up exactly when the relay of \<open>handleConnection\<close> is ready and the worker starts, and
  every chunk its stream carries changes the server as the abstract relay's transfer does, on the Vision stream as on
  the plain one.\<close>

lemma mux_refines_relay:
  assumes "handleMux (k_buffers c) (k_kind c) workerOk i v = MuxTunnel stream"
  shows "relayReady c (MuxRelay i v) \<and>
    muxRead L u node stream mb w = relayStep L u node (MuxRelay i v) (FromClient (length mb)) w \<and>
    muxWrite L u node stream mb w = relayStep L u node (MuxRelay i v) (ToClient (length mb)) w"
  using assms
proof (cases v)
  case True
  with assms have "setupVisionConn (fst (k_buffers c)) (snd (k_buffers c)) (k_kind c) = None" "stream = VisionStream i"
    by (simp_all add: handleMux_def split: option.splits if_splits)
  with True show ?thesis by (simp add: relayReady_def accountChunk_def)
next
  case False
  with assms have "stream = PlainStream i" by (simp add: handleMux_def split: if_splits)
  with False show ?thesis by (simp add: relayReady_def)
qed

text \<open>The Vision stream is counted like the plain one, but no limiter is ever asked for its traffic.\<close>

lemma mux_vision_unshaped:
  assumes "is_i64 (fst (counter w (u, node)))" "is_i64 (snd (counter w (u, node)))"
  shows "waits (relayRun L u node (MuxRelay i True) ts w) = waits w \<and>
    counter (relayRun L u node (MuxRelay i True) ts w) (u, node) =
      (wrap64 (fst (counter w (u, node)) + int (fromClient ts)), wrap64 (snd (counter w (u, node)) + int (toClient ts)))"
proof (induction ts rule: rev_induct)
  case Nil
  then show ?case using assms by (cases "counter w (u, node)") (simp add: wrap64_id)
next
  case (snoc t ts)
  then show ?case by (cases t) (simp_all add: addTraffic_counter add.assoc)
qed

text \<open>C24: Full cone. The socket of a UDP session is unconnected and bound to the unspecified address of the family
  of the resolved destination, \<open>0.0.0.0\<close> or \<open>::\<close>, on a port of the system's choice. Until one of the two directions
  ends, every request goes to the session's destination, and every datagram of that family that arrives at the port,
  for whatever local address and from whatever source, reaches the worker, cut to the buffer and stamped with its
  source; afterwards the socket is closed and nothing passes.\<close>

theorem mux_full_cone:
  assumes "Dispatch env True netAddr = Inr (UdpBridge sock dest)" "runs (sessionStep bufSize sock dest) newSession es s"
  shows "ResolveUDPAddr env netAddr = Some dest \<and> ListenUDP env (so_net sock) (so_local sock) \<and> so_peer sock = None \<and>
    (if ua_ip dest \<noteq> [] \<and> To4 (ua_ip dest) = None
     then so_net sock = ''udp6'' \<and> so_local sock = \<lparr>ua_ip = replicate 16 0, ua_port = 0\<rparr>
     else so_net sock = ''udp4'' \<and> To4 (ua_ip (so_local sock)) = Some [0, 0, 0, 0] \<and> ua_port (so_local sock) = 0) \<and>
    us_out s = map (Pair dest) (requestsIn (takeWhile live_event es)) \<and>
    us_in s = map (\<lambda>(local, b, src). (take bufSize b, src))
      (filter (\<lambda>(local, d). if so_net sock = ''udp4'' then To4 local \<noteq> None else To4 local = None) (repliesIn (takeWhile live_event es))) \<and>
    (us_open s \<longleftrightarrow> list_all live_event es)"
proof -
  have inv: "us_out s = map (Pair dest) (requestsIn (takeWhile live_event es))"
    "us_in s = map (ReadMultiBuffer bufSize) (received sock (takeWhile live_event es))" "us_open s \<longleftrightarrow> list_all live_event es"
    using session_run_inv [OF assms(2) refl] by (simp_all add: session_inv_simps liveBefore_def)
  have zero: "To4 IPv4zero = Some [0, 0, 0, 0]" "unspecified IPv4zero" "unspecified IPv6zero" by code_simp+
  obtain ua where ua: "ResolveUDPAddr env netAddr = Some ua" using assms(1) by (simp add: Dispatch_def split: option.splits)
  let ?v6 = "ua_ip ua \<noteq> [] \<and> To4 (ua_ip ua) = None"
  have sock: "dest = ua" "ListenUDP env (so_net sock) (so_local sock)"
    "sock = (if ?v6 then \<lparr>so_net = ''udp6'', so_local = \<lparr>ua_ip = IPv6zero, ua_port = 0\<rparr>, so_peer = None\<rparr>
       else \<lparr>so_net = ''udp4'', so_local = \<lparr>ua_ip = IPv4zero, ua_port = 0\<rparr>, so_peer = None\<rparr>)"
    using assms(1) ua by (auto simp: Dispatch_def listenUDP_def split: if_splits)
  have "unspecified (ua_ip (so_local sock))" "so_peer sock = None" using zero(2,3) by (simp_all add: sock(3))
  then have rc: "receives sock local d = sameFamily sock local" for local d by (simp add: receives_def)
  have "us_in s = map (\<lambda>(local, b, src). (take bufSize b, src))
      (filter (\<lambda>(local, d). sameFamily sock local) (repliesIn (takeWhile live_event es)))"
    unfolding inv(2) received_def rc by (simp add: ReadMultiBuffer_def case_prod_unfold comp_def)
  moreover have "if ?v6 then so_net sock = ''udp6'' \<and> so_local sock = \<lparr>ua_ip = replicate 16 0, ua_port = 0\<rparr>
     else so_net sock = ''udp4'' \<and> To4 (ua_ip (so_local sock)) = Some [0, 0, 0, 0] \<and> ua_port (so_local sock) = 0"
    using zero(1) by (simp add: sock(3) IPv6zero_def)
  ultimately show ?thesis using ua sock(1,2) inv(1,3) \<open>so_peer sock = None\<close> unfolding sameFamily_def by simp
qed

section \<open>Witnesses\<close>

lemma mux_refines_relay_witness:
  "relayReady (exConn []) (MuxRelay [1, 2] False) \<and>
   muxRead exLib exUUID [] (PlainStream [1, 2]) [3] exServer =
   relayStep exLib exUUID [] (MuxRelay [1, 2] False) (FromClient (length [3 :: byte])) exServer"
proof -
  have "handleMux (k_buffers (exConn [])) (k_kind (exConn [])) True [1, 2] False = MuxTunnel (PlainStream [1, 2])"
    by (simp add: handleMux_def)
  from mux_refines_relay [OF this, of exLib exUUID "[]" "[3]" exServer] show ?thesis by (elim conjE) (intro conjI)
qed

definition exEnv :: net_env where
  "exEnv = \<lparr>ResolveUDPAddr = (\<lambda>_. Some \<lparr>ua_ip = [10, 0, 0, 1], ua_port = 53\<rparr>), ListenUDP = (\<lambda>_ _. True), DialTCP = (\<lambda>_. True)\<rparr>"

abbreviation exDest :: udp_addr where "exDest \<equiv> \<lparr>ua_ip = [10, 0, 0, 1], ua_port = 53\<rparr>"

abbreviation exSocket :: udp_socket where
  "exSocket \<equiv> \<lparr>so_net = ''udp4'', so_local = \<lparr>ua_ip = IPv4zero, ua_port = 0\<rparr>, so_peer = None\<rparr>"

theorem mux_full_cone_witness:
  "\<exists>s. runs (sessionStep 8192 exSocket exDest) newSession
        [Request [1], Reply [192, 168, 0, 1] ([2], Some \<lparr>ua_ip = [9, 9, 9, 9], ua_port = 7\<rparr>)] s \<and>
     us_in s = [([2], Some \<lparr>ua_ip = [9, 9, 9, 9], ua_port = 7\<rparr>)]"
proof -
  let ?es = "[Request [1], Reply [192, 168, 0, 1] ([2], Some \<lparr>ua_ip = [9, 9, 9, 9], ua_port = 7\<rparr>)]"
  let ?s = "\<lparr>us_out = [(exDest, [1])], us_in = [([2], Some \<lparr>ua_ip = [9, 9, 9, 9], ua_port = 7\<rparr>)], us_open = True,
     us_reqDone = False, us_respDone = False\<rparr>"
  have "unspecified IPv4zero" by code_simp
  then have run: "runs (sessionStep 8192 exSocket exDest) newSession ?es ?s"
    by (intro runs_exec) (simp add: newSession_def fullConeWrite_def ReadMultiBuffer_def receives_def sameFamily_def To4_def)
  have d: "Dispatch exEnv True ''d:53'' = Inr (UdpBridge exSocket exDest)"
    by (simp add: Dispatch_def exEnv_def To4_def listenUDP_def)
  from mux_full_cone [OF d run] have "us_in ?s = [([2], Some \<lparr>ua_ip = [9, 9, 9, 9], ua_port = 7\<rparr>)]"
    by simp
  with run show ?thesis by (intro exI [of _ ?s] conjI)
qed

end
