(* ===== verification/Spec2Isabelle.thy ===== *)
theory Spec2Isabelle
  imports Handshake Attribution Chan_Listener Transport Start_Loop Startup Udp_Relay Vision_Relay Mux
begin

text \<open>
  A model of the VGate server (Go), a VLESS proxy backend that is configured by a manager over HTTP, and the
  theorems that make it correct.

  \<^bold>\<open>The program.\<close> \<open>cmd/root.go\<close> loads the local configuration, sets up logging, builds the API client
  (\<open>api/client.go\<close>) and the VLESS server (\<open>proxy/vless\<close>), synchronises once, starts the server and then
  synchronises on every tick: pull the configuration and the users, collect and report the traffic deltas, pull the
  quota snapshots. The server accepts connections on a listener of one of the registered transports
  (\<open>transport\<close>), secured by TLS or REALITY (\<open>transport/security\<close>) natively or through xray-core's
  listeners (\<open>transport/xraybridge\<close>). A connection's handler parses the VLESS header, authenticates the user,
  checks her quota, registers the connection, and runs one of four relays: TCP, UDP over TCP, Vision, Mux. All
  relays count bytes per user and entry point, shape them with token buckets, and cut a user off when her quota
  is used up. Reloads change users, limits and settings under the running connections.

  \<^bold>\<open>The state.\<close> \<open>Server_State.world\<close> is the \<open>Server\<close> struct of \<open>server.go\<close>, field by field, extended
  by what the environment sees: closed connections and listeners, closed decryption instances, the requests made to
  limiters, the number of limiters built. Operations are functions on it; an operation that can fail returns an
  option, a sum or an outcome type, a Go panic is a value. Go's maps are partial functions, and a loop over a map
  takes the visiting order as an argument, so that a theorem for every enumeration holds for whatever order the
  runtime picks. 64-bit integers are integers with the wrap-around (\<open>wrap64\<close>) written where the code computes;
  bytes are 8-bit words. Numbers that pass through JSON are rounded to float64 (\<open>float64Of\<close>); a conversion of a float
  that is out of range is implementation-specific in Go, and the model leaves its value open. Concurrent code (the accept loop, the channel listener, the relays, the shared server) is a
  step function with runs over event lists; an event list is one interleaving of the goroutines. A round of a copy loop
  (read, count, write) is one step; \<open>upRound_halves\<close>, \<open>downRound_halves\<close>, \<open>upWrite_moves\<close> and \<open>downRead_moves\<close> in
  \<open>Tcp_Relay\<close> show how the halves of a round move across steps of the other goroutines.

  \<^bold>\<open>The theories.\<close>
  \<^item> \<open>Prelude\<close>: machine types, Go's slice and index expressions, loops over maps, \<open>runs\<close>, and the contracts
    \<open>machine\<close> (steps that keep an invariant), \<open>codec\<close> and \<open>stream_codec\<close>. \<open>Go_Std\<close>: the functions of Go's
    standard library the code uses, among them \<open>io.ReadAtLeast\<close> over a scripted connection.
  \<^item> \<open>Model_Types\<close>, \<open>Protocol\<close>, \<open>Server_State\<close>: \<open>model/*.go\<close>, \<open>protocol.go\<close>, the struct, the library record \<open>lib\<close>.
  \<^item> \<open>Rate_Limit\<close>, \<open>Quota\<close>, \<open>Traffic\<close>, \<open>Users\<close>: \<open>ratelimit.go\<close>, \<open>quota.go\<close>, \<open>traffic.go\<close>, \<open>user.go\<close>;
    \<open>Accounting\<close>: their composition. The quota code implements an abstract headroom, the cut happens exactly at the
    cap over any run of chunks, a report credits exactly what was counted since the one before.
  \<^item> \<open>Vision\<close>, \<open>Handler\<close>, \<open>Handshake\<close>: \<open>handler.go\<close> and the preconditions of \<open>vision.go\<close>. A client's encoder is
    written from the wire layout; the handshake inverts it, refuses everything it must, and counts exactly the bytes its
    two header reads took and its response write got out. \<open>handleConnection\<close> is stated over a list of transfers, whose
    effect on the server depends on the path (\<open>plainTransfer\<close>, \<open>visionTransfer\<close>, \<open>muxVisionTransfer\<close>), and ends with the
    two deferred calls.
  \<^item> \<open>Tcp_Relay\<close>, \<open>Udp_Relay\<close>, \<open>Vision_Relay\<close>, \<open>Mux\<close>: \<open>handleTCP\<close>, \<open>udp.go\<close>, \<open>vision.go\<close>, \<open>mux.go\<close>. Delivery,
    completeness, termination, framing, and that the relays refine these transfers (\<open>tcp_relay_refines\<close>,
    \<open>udp_relay_refines\<close>, \<open>vision_relay_refines\<close>, \<open>mux_refines_relay\<close>). \<open>Mux\<close> models the socket of a UDP session by its
    family, local address and peer, and what it receives as the \<open>net\<close> package documents it.
  \<^item> \<open>Server_Run\<close>: the critical sections of handlers, reloads, snapshots and reports interleaved on one server; the
    type invariant of the state, and what a reload between a handler's look-up and its registration does.
  \<^item> \<open>Config_Update\<close>, \<open>Start_Loop\<close>, \<open>Attribution\<close>: the reload of \<open>server.go\<close>, the accept loop (which any error of
    \<open>Accept\<close> ends), the short-ID table.
  \<^item> \<open>Stream_Settings\<close>, \<open>Security_Tls\<close>, \<open>Security_Reality\<close>, \<open>Xray_Bridge\<close>, \<open>Chan_Listener\<close>, \<open>Transport\<close>, \<open>Log_Level\<close>:
    the settings maps of \<open>server.go\<close>, \<open>transport/security\<close>, \<open>transport/xraybridge\<close>, the registry and the transports.
    Over ws and xhttp the theorems say what xray-core is asked to apply; that it does is xray-core's.
  \<^item> \<open>Api_Client\<close>, \<open>Sync\<close>, \<open>Startup\<close>: \<open>api/client.go\<close>, \<open>cmd/root.go\<close> with the interface \<open>proxy.Inbound\<close>,
    \<open>config/config.go\<close>.

  \<^bold>\<open>Interfaces.\<close> \<open>machine\<close> is interpreted on the relays and on the shared server, \<open>stream_codec\<close> on the UDP frames,
  \<open>conditional_fetch\<close> on the two conditional requests, \<open>inbound\<close> (the part of \<open>proxy.Inbound\<close> the reporting rests on)
  on the VLESS server.

  \<^bold>\<open>Bounds.\<close> The handshake reads at most 512 bytes, as the code's buffer does. Theorems about quotas assume
  byte counts below \<open>2 ^ 61\<close>, far above what a node can transfer, so that sums of a few of them do not wrap;
  counters themselves wrap as in Go. A relay's peers are scripts: finite lists of what their reads return, after
  which a byte stream is at its end; the bound on the steps of the TCP relay is the size of these scripts, and it is
  reached or the relay can go on. \<open>read_all\<close> takes fuel; one more than the number of values is enough, as its
  lemma states.

  \<^bold>\<open>Parameters.\<close> Third-party code is an argument: rate limiters, the v2 decryption, the protobuf decoder of the
  addons, key pairs and certificates, xray-core's listeners, the Vision reader (\<open>uncover\<close>: the payload chunks it finds in
  the client's bytes), the write sizes of xray-core's buffered writer, the Mux worker, viper, the HTTP
  library. What the code relies on of it is a hypothesis of the theorems that need it (\<open>limiter_laws\<close>; \<open>loads_pairs\<close>:
  loading a key pair from files is loading the pair of their contents), and each
  theorem with hypotheses has a witness with a concrete instance.

  \<^bold>\<open>Not modelled.\<close> \<open>main.go\<close> and \<open>config/version.go\<close> have no logic. Logging is left out where it only prints.
  Deadlines are left out: a read that times out is one that returns an error. Mux frames, Vision padding and the
  cryptography are third-party. Blocking in \<open>WaitN\<close> is not modelled as time; the requests are recorded. Data races
  (fields read without the mutex) are not modelled: each critical section and each such read is one step.
\<close>

end
